theory Spec2Isabelle
  imports Main
begin

section \<open>JavaScript values, strings and objects\<close>

text \<open>
  The values that travel through \<^verbatim>\<open>handleRequest\<close> (\<^verbatim>\<open>src/core.ts\<close>): parsed JSON
  bodies, the path-parameter object, the header object, the query object, decoded token
  claims and handler results. An object is its list of own properties in JavaScript's
  property order.
\<close>

datatype jsval =
    JUndefined
  | JNull
  | JBool bool
  | JNum int
  | JStr string
  | JArr "jsval list"
  | JObj "(string \<times> jsval) list"

type_synonym obj = "(string \<times> jsval) list"

text \<open>Truthiness, as tested by \<^verbatim>\<open>if (params?.params)\<close>.\<close>

fun truthy :: "jsval \<Rightarrow> bool" where
  "truthy JUndefined = False"
| "truthy JNull = False"
| "truthy (JBool b) = b"
| "truthy (JNum n) = (n \<noteq> 0)"
| "truthy (JStr s) = (s \<noteq> [])"
| "truthy (JArr xs) = True"
| "truthy (JObj ps) = True"

text \<open>\<^verbatim>\<open>s.split(sep)\<close> for a one-character separator: never empty, \<^verbatim>\<open>"".split("/")\<close> is \<^verbatim>\<open>[""]\<close>.\<close>

fun splitOn :: "char \<Rightarrow> string \<Rightarrow> string list" where
  "splitOn sep [] = [[]]"
| "splitOn sep (c # cs) =
     (if c = sep then [] # splitOn sep cs
      else (case splitOn sep cs of
              s # ss \<Rightarrow> (c # s) # ss
            | [] \<Rightarrow> [[c]]))"

text \<open>\<^verbatim>\<open>s.startsWith(p)\<close>, \<^verbatim>\<open>s.slice(1)\<close> and \<^verbatim>\<open>s.slice(0, -1)\<close>.\<close>

definition startsWith :: "string \<Rightarrow> string \<Rightarrow> bool" where
  "startsWith s p = (take (length p) s = p)"

definition slice1 :: "string \<Rightarrow> string" where
  "slice1 s = drop 1 s"

definition sliceInit :: "string \<Rightarrow> string" where
  "sliceInit s = butlast s"

text \<open>
  \<^verbatim>\<open>s.replaceAll(/\/\//g, '/')\<close>: one left-to-right pass over non-overlapping matches, so
  three slashes in a row become two.
\<close>

fun replaceAllSlashes :: "string \<Rightarrow> string" where
  "replaceAllSlashes (a # b # cs) =
     (if a = CHR ''/'' \<and> b = CHR ''/'' then CHR ''/'' # replaceAllSlashes cs
      else a # replaceAllSlashes (b # cs))"
| "replaceAllSlashes cs = cs"

text \<open>\<^verbatim>\<open>s.toLowerCase()\<close> on the ASCII letters, which is all an HTTP method token holds.\<close>

definition lowerChar :: "char \<Rightarrow> char" where
  "lowerChar c =
     (case map_of (zip ''ABCDEFGHIJKLMNOPQRSTUVWXYZ'' ''abcdefghijklmnopqrstuvwxyz'') c of
        None \<Rightarrow> c
      | Some l \<Rightarrow> l)"

definition toLowerCase :: "string \<Rightarrow> string" where
  "toLowerCase s = map lowerChar s"

text \<open>\<^verbatim>\<open>String(n)\<close> for a non-negative integer below \<^verbatim>\<open>1e21\<close>: its decimal digits.\<close>

fun showNat :: "nat \<Rightarrow> string" where
  "showNat n = (if n < 10 then [''0123456789'' ! n]
                else showNat (n div 10) @ [''0123456789'' ! (n mod 10)])"

declare showNat.simps [simp del]

text \<open>
  Property order of an ordinary object: the keys that are array indices (canonical
  decimal strings below \<^verbatim>\<open>2^32 - 1\<close>) come first in ascending numeric order, then the
  other string keys in insertion order. \<^verbatim>\<open>o[k] = v\<close> keeps the place of a key that is
  already there. The key \<^verbatim>\<open>__proto__\<close> is the accessor that every object created by
  \<^verbatim>\<open>{}\<close> inherits from \<^verbatim>\<open>Object.prototype\<close>: an assignment to it creates no property, and
  its setter ignores a value that is neither an object nor \<^verbatim>\<open>null\<close>, as every value is
  that the code assigns under a key which can be \<^verbatim>\<open>__proto__\<close> (the path segments, which are
  strings). \<^verbatim>\<open>objGet\<close> reads own properties; reads of the members inherited from
  \<^verbatim>\<open>Object.prototype\<close> are outside the model.
\<close>

definition isDigit :: "char \<Rightarrow> bool" where
  "isDigit c = (c \<in> set ''0123456789'')"

definition decimal :: "string \<Rightarrow> int" where
  "decimal s = foldl (\<lambda>n c. 10 * n + (of_char c - 48)) 0 s"

definition isArrayIndex :: "string \<Rightarrow> bool" where
  "isArrayIndex k = (k \<noteq> [] \<and> list_all isDigit k \<and> (hd k \<noteq> CHR ''0'' \<or> k = ''0'')
     \<and> decimal k < 4294967295)"

definition objSet :: "string \<Rightarrow> jsval \<Rightarrow> obj \<Rightarrow> obj" where
  "objSet k v ob =
     (if k = ''__proto__'' then ob
      else if map_of ob k \<noteq> None then map (\<lambda>(k', v'). if k' = k then (k', v) else (k', v')) ob
      else if isArrayIndex k then
        (let smaller = (\<lambda>(k', v'). isArrayIndex k' \<and> decimal k' < decimal k)
         in takeWhile smaller ob @ [(k, v)] @ dropWhile smaller ob)
      else ob @ [(k, v)])"

definition objGet :: "obj \<Rightarrow> string \<Rightarrow> jsval" where
  "objGet ob k = (case map_of ob k of None \<Rightarrow> JUndefined | Some v \<Rightarrow> v)"

definition objectValues :: "obj \<Rightarrow> jsval list" where
  "objectValues ob = map snd ob"

section \<open>Route metadata and requests\<close>

text \<open>
  \<^verbatim>\<open>RouteDefinition\<close> of \<^verbatim>\<open>src/decorators.ts\<close> (its \<^verbatim>\<open>params\<close> field is never read by
  \<^verbatim>\<open>handleRequest\<close>), and what \<^verbatim>\<open>handleRequest\<close> reads of a controller through
  \<^verbatim>\<open>Reflect\<close>: \<^verbatim>\<open>prefix\<close>, \<^verbatim>\<open>routes\<close>, \<^verbatim>\<open>cachedMethods\<close>, and per method name \<^verbatim>\<open>auth\<close>
  (a list of \<^verbatim>\<open>{index, name}\<close>, absent when the method has no auth parameter) and
  \<^verbatim>\<open>cacheTtl\<close>, each a table from method names. \<^verbatim>\<open>ctrlName\<close> identifies the controller
  instance. The metadata that \<^verbatim>\<open>decorators.ts\<close> keeps under \<^verbatim>\<open>body\<close>, \<^verbatim>\<open>params\<close>, \<^verbatim>\<open>headers\<close> and
  \<^verbatim>\<open>query\<close> is read nowhere in \<^verbatim>\<open>core.ts\<close> and has no field here. What the decorators
  leave at the places \<^verbatim>\<open>handleRequest\<close> reads is outside the model: the tables are given.
\<close>

datatype requestMethod = Get | Post | Put | Patch | Delete

fun methodString :: "requestMethod \<Rightarrow> string" where
  "methodString Get = ''get''"
| "methodString Post = ''post''"
| "methodString Put = ''put''"
| "methodString Patch = ''patch''"
| "methodString Delete = ''delete''"

record route =
  path :: string
  requestMethod :: requestMethod
  methodName :: string

type_synonym authParam = "nat \<times> string"

text \<open>
  The TTL that \<^verbatim>\<open>Cache(TTL: number)\<close> keeps for a method is a JavaScript number, of which
  \<^verbatim>\<open>handleRequest\<close> makes two uses: it prints it in a template literal and it hands it to
  \<^verbatim>\<open>redis.set\<close>. Such a number is kept as its rendering, the string that \<^verbatim>\<open>String(n)\<close> and
  \<^verbatim>\<open>`${n}`\<close> yield for it: \<^verbatim>\<open>60\<close> for \<^verbatim>\<open>60\<close>, \<^verbatim>\<open>1.5\<close> for \<^verbatim>\<open>1.5\<close>,
  \<^verbatim>\<open>73786976294838210000\<close> for \<^verbatim>\<open>2 ** 66\<close>, \<^verbatim>\<open>1e+21\<close> for \<^verbatim>\<open>1e21\<close>, \<^verbatim>\<open>NaN\<close> for \<^verbatim>\<open>NaN\<close>.
\<close>

datatype jsNumber = Rendered string

fun numberToString :: "jsNumber \<Rightarrow> string" where
  "numberToString (Rendered s) = s"

record controller =
  ctrlName :: string
  prefix :: string
  routes :: "route list"
  cachedMethods :: "string list"
  auth :: "(string \<times> authParam list) list"
  cacheTtl :: "(string \<times> jsNumber) list"

text \<open>
  The request as the HTTP server hands it over. \<^verbatim>\<open>reqMethod\<close> is \<^verbatim>\<open>req.method\<close>
  (it may be \<^verbatim>\<open>undefined\<close>), \<^verbatim>\<open>pathname\<close> is
  \<^verbatim>\<open>new URL(req.url || '', 'http://localhost').pathname\<close>, \<^verbatim>\<open>None\<close> when the constructor
  throws; \<^verbatim>\<open>query\<close> is the query string after \<^verbatim>\<open>parseQuery\<close> and the JSON round trip;
  the body stream delivers its chunks and then ends or fails.
\<close>

datatype bodyStream = StreamEnd "string list" | StreamFail "string list"

record request =
  reqMethod :: "string option"
  pathname :: "string option"
  headers :: "(string \<times> string) list"
  query :: jsval
  body :: bodyStream

section \<open>The response, the outside world and effects\<close>

text \<open>
  Exceptions are values. Everything \<^verbatim>\<open>handleRequest\<close> does to the outside is recorded
  in the \<open>world\<close>: the \<^verbatim>\<open>ServerResponse\<close> (status code, headers, and one entry per call
  of \<^verbatim>\<open>res.end\<close> holding the status, headers and body sent by it), the cache store, and
  the events: every cache read, cache write and handler invocation, in order.
\<close>

datatype exn =
    InvalidUrl
  | SyntaxError
  | StreamError
  | VerifyError
  | HeadersSent
  | External string

datatype event =
    CacheGet string
  | CacheSet string "string option" "jsNumber option"
  | Invoked string string "jsval list"

record 's world =
  statusCode :: nat
  resHeaders :: "(string \<times> string) list"
  writes :: "(nat \<times> (string \<times> string) list \<times> string) list"
  store :: 's
  events :: "event list"

text \<open>
  What \<^verbatim>\<open>core.ts\<close> calls and does not define: \<^verbatim>\<open>JSON.parse\<close> (\<open>None\<close>: it throws),
  \<^verbatim>\<open>JSON.stringify\<close> (\<open>None\<close>: it returns \<^verbatim>\<open>undefined\<close>), \<^verbatim>\<open>verify\<close> of jsonwebtoken with
  its \<^verbatim>\<open>ignoreExpiration\<close> option (\<open>None\<close>: it throws), the controller methods, and the
  \<^verbatim>\<open>get\<close> and \<^verbatim>\<open>set\<close> of the ioredis client, each of which may reject. Every awaited call
  is taken to settle. The values are finite trees, on which \<^verbatim>\<open>JSON.stringify\<close> does not throw;
  the decoded token is taken to be an object. \<^verbatim>\<open>JSON.stringify\<close> of the three constant error
  objects is written as the string it yields.
\<close>

record 's env =
  jsonParse :: "string \<Rightarrow> jsval option"
  jsonStringify :: "jsval \<Rightarrow> string option"
  verify :: "string \<Rightarrow> string \<Rightarrow> bool \<Rightarrow> obj option"
  handler :: "string \<Rightarrow> string \<Rightarrow> jsval list \<Rightarrow> exn + jsval"
  redisGet :: "'s \<Rightarrow> string \<Rightarrow> exn + string option"
  redisSet :: "'s \<Rightarrow> string \<Rightarrow> string option \<Rightarrow> jsNumber option \<Rightarrow> exn + 's"

type_synonym ('s, 'a) io = "'s world \<Rightarrow> (exn + 'a) \<times> 's world"

definition ioReturn :: "'a \<Rightarrow> ('s, 'a) io" where
  "ioReturn x = (\<lambda>w. (Inr x, w))"

definition ioThrow :: "exn \<Rightarrow> ('s, 'a) io" where
  "ioThrow e = (\<lambda>w. (Inl e, w))"

definition ioBind :: "('s, 'a) io \<Rightarrow> ('a \<Rightarrow> ('s, 'b) io) \<Rightarrow> ('s, 'b) io" where
  "ioBind m f = (\<lambda>w. case m w of (Inl e, w') \<Rightarrow> (Inl e, w') | (Inr x, w') \<Rightarrow> f x w')"

definition ioThen :: "('s, 'a) io \<Rightarrow> ('s, 'b) io \<Rightarrow> ('s, 'b) io" where
  "ioThen m n = ioBind m (\<lambda>_. n)"

definition ioCatch :: "('s, 'a) io \<Rightarrow> (exn \<Rightarrow> ('s, 'a) io) \<Rightarrow> ('s, 'a) io" where
  "ioCatch m h = (\<lambda>w. case m w of (Inl e, w') \<Rightarrow> h e w' | (Inr x, w') \<Rightarrow> (Inr x, w'))"

text \<open>
  \<^verbatim>\<open>res.statusCode = n\<close>, \<^verbatim>\<open>res.setHeader\<close> (it throws once the response has been sent)
  and \<^verbatim>\<open>res.end\<close>.
\<close>

fun upsert :: "string \<Rightarrow> string \<Rightarrow> (string \<times> string) list \<Rightarrow> (string \<times> string) list" where
  "upsert k v [] = [(k, v)]"
| "upsert k v ((k', v') # hs) = (if k' = k then (k, v) # hs else (k', v') # upsert k v hs)"

definition setStatus :: "nat \<Rightarrow> ('s, unit) io" where
  "setStatus n = (\<lambda>w. (Inr (), w\<lparr>statusCode := n\<rparr>))"

definition setHeader :: "string \<Rightarrow> string \<Rightarrow> ('s, unit) io" where
  "setHeader k v = (\<lambda>w. if writes w \<noteq> [] then (Inl HeadersSent, w)
                         else (Inr (), w\<lparr>resHeaders := upsert k v (resHeaders w)\<rparr>))"

definition resEnd :: "string \<Rightarrow> ('s, unit) io" where
  "resEnd b = (\<lambda>w. (Inr (), w\<lparr>writes := writes w @ [(statusCode w, resHeaders w, b)]\<rparr>))"

definition unauthorized :: "('s, unit) io" where
  \<open>unauthorized =
     ioThen (setStatus 401)
    (ioThen (setHeader ''Content-Type'' ''application/json'')
            (resEnd ''{"error":"Unauthorized"}''))\<close>

definition notFound :: "('s, unit) io" where
  \<open>notFound =
     ioThen (setStatus 404)
    (ioThen (setHeader ''Content-Type'' ''application/json'')
            (resEnd ''{"error":"Not found"}''))\<close>

definition internalServerError :: "('s, unit) io" where
  \<open>internalServerError =
     ioThen (setStatus 500)
    (ioThen (setHeader ''Content-Type'' ''application/json'')
            (resEnd ''{"error":"Internal Server Error"}''))\<close>

text \<open>The cache client and the controller method, each leaving its event.\<close>

definition cacheGet :: "'s env \<Rightarrow> string \<Rightarrow> ('s, string option) io" where
  "cacheGet env key = (\<lambda>w.
     let w' = w\<lparr>events := events w @ [CacheGet key]\<rparr>
     in case redisGet env (store w) key of
          Inl e \<Rightarrow> (Inl e, w')
        | Inr r \<Rightarrow> (Inr r, w'))"

definition cacheSet :: "'s env \<Rightarrow> string \<Rightarrow> string option \<Rightarrow> jsNumber option \<Rightarrow> ('s, unit) io" where
  "cacheSet env key val ttl = (\<lambda>w.
     let w' = w\<lparr>events := events w @ [CacheSet key val ttl]\<rparr>
     in case redisSet env (store w) key val ttl of
          Inl e \<Rightarrow> (Inl e, w')
        | Inr s \<Rightarrow> (Inr (), w'\<lparr>store := s\<rparr>))"

definition invoke :: "'s env \<Rightarrow> controller \<Rightarrow> route \<Rightarrow> jsval list \<Rightarrow> ('s, jsval) io" where
  "invoke env c r args = (\<lambda>w.
     (handler env (ctrlName c) (methodName r) args,
      w\<lparr>events := events w @ [Invoked (ctrlName c) (methodName r) args]\<rparr>))"

section \<open>The dispatcher of \<^verbatim>\<open>src/core.ts\<close>\<close>

subsection \<open>\<^verbatim>\<open>matchRoute\<close>\<close>

text \<open>
  The loop of \<^verbatim>\<open>matchRoute\<close> over the two segment lists, which have the same length
  when it runs; \<open>None\<close> is \<^verbatim>\<open>null\<close>.
\<close>

fun matchLoop :: "string list \<Rightarrow> string list \<Rightarrow> obj \<Rightarrow> obj option" where
  "matchLoop [] us params = Some params"
| "matchLoop (r # rs) (u # us) params =
     (if startsWith r '':'' then matchLoop rs us (objSet (slice1 r) (JStr u) params)
      else if r \<noteq> u then None
      else matchLoop rs us params)"
| "matchLoop (r # rs) [] params = None"

definition matchRoute :: "string \<Rightarrow> string \<Rightarrow> obj option" where
  "matchRoute rt url =
     (let routeParts = splitOn (CHR ''/'') rt;
          urlParts = splitOn (CHR ''/'') url
      in if length routeParts \<noteq> length urlParts then None
         else matchLoop routeParts urlParts [])"

subsection \<open>\<^verbatim>\<open>getJsonBody\<close> and \<^verbatim>\<open>extractParams\<close>\<close>

definition getJsonBody :: "'s env \<Rightarrow> request \<Rightarrow> ('s, jsval) io" where
  "getJsonBody env req =
     (case body req of
        StreamEnd chunks \<Rightarrow>
          (case jsonParse env (concat chunks) of
             None \<Rightarrow> ioThrow SyntaxError
           | Some v \<Rightarrow> ioReturn v)
      | StreamFail chunks \<Rightarrow> ioThrow StreamError)"

definition headersObj :: "request \<Rightarrow> jsval" where
  "headersObj req = JObj (map (\<lambda>(k, v). (k, JStr v)) (headers req))"

text \<open>
  \<^verbatim>\<open>extractParams\<close> returns the object \<^verbatim>\<open>{ body, params, headers, query }\<close>, its four
  properties in this order. It runs only after \<^verbatim>\<open>new URL\<close> has succeeded in
  \<^verbatim>\<open>handleRequest\<close>, on the same \<^verbatim>\<open>req.url\<close>.
\<close>

definition extractParams :: "'s env \<Rightarrow> request \<Rightarrow> string \<Rightarrow> ('s, obj) io" where
  "extractParams env req pth =
     (case pathname req of
        None \<Rightarrow> ioThrow InvalidUrl
      | Some urlPathname \<Rightarrow>
          ioBind (if map_option toLowerCase (reqMethod req) \<noteq> Some ''get''
                     \<and> map_of (headers req) ''content-type'' = Some ''application/json''
                  then getJsonBody env req
                  else ioReturn (JObj []))
            (\<lambda>bdy. ioReturn
               [(''body'', bdy),
                (''params'', (case matchRoute pth urlPathname of None \<Rightarrow> JNull | Some ps \<Rightarrow> JObj ps)),
                (''headers'', headersObj req),
                (''query'', query req)]))"

subsection \<open>The body of the route loop\<close>

definition fullPathOf :: "controller \<Rightarrow> route \<Rightarrow> string" where
  "fullPathOf c r =
     (let fullPath = replaceAllSlashes (''/'' @ prefix c @ ''/'' @ path r)
      in if path r = ''/'' then sliceInit fullPath else fullPath)"

definition routeMatches :: "request \<Rightarrow> string list \<Rightarrow> controller \<Rightarrow> route \<Rightarrow> bool" where
  "routeMatches req pathSegments c r =
     (let fullPathSegments = splitOn (CHR ''/'') (fullPathOf c r)
      in map_option toLowerCase (reqMethod req) = Some (methodString (requestMethod r))
         \<and> length fullPathSegments = length pathSegments
         \<and> list_all (\<lambda>i. startsWith (fullPathSegments ! i) '':''
                          \<or> fullPathSegments ! i = pathSegments ! i)
                    [0..<length fullPathSegments])"

text \<open>
  Lines 65 to 71: when \<^verbatim>\<open>params.params\<close> is truthy, every capture segment is written
  into it once more.
\<close>

definition setCaptures :: "string list \<Rightarrow> string list \<Rightarrow> obj \<Rightarrow> obj" where
  "setCaptures fullPathSegments pathSegments params =
     (case objGet params ''params'' of
        JObj ps \<Rightarrow>
          objSet ''params''
            (JObj (fold (\<lambda>i acc. if startsWith (fullPathSegments ! i) '':''
                                  then objSet (slice1 (fullPathSegments ! i)) (JStr (pathSegments ! i)) acc
                                  else acc)
                        [0..<length fullPathSegments] ps))
            params
      | _ \<Rightarrow> params)"

text \<open>
  Lines 88 to 95: \<^verbatim>\<open>params[param.index] = ...\<close> for every auth parameter; the index is a
  number, so the property key is its decimal string.
\<close>

definition bindAuth :: "obj \<Rightarrow> authParam list \<Rightarrow> obj \<Rightarrow> obj" where
  "bindAuth claims authParams params =
     fold (\<lambda>(idx, nm) acc.
             objSet (showNat idx)
               (if nm = ''__allAuthParams'' then JObj claims else objGet claims nm) acc)
          authParams params"

text \<open>
  \<^verbatim>\<open>bearerHeader.split(' ')[1]\<close>; \<open>None\<close> is \<^verbatim>\<open>undefined\<close>, on which \<^verbatim>\<open>verify\<close> throws.
\<close>

definition bearerToken :: "string \<Rightarrow> string option" where
  "bearerToken bearerHeader =
     (case splitOn (CHR '' '') bearerHeader of
        b # bearerTokenEncrypted # rest \<Rightarrow> Some bearerTokenEncrypted
      | _ \<Rightarrow> None)"

text \<open>
  Lines 75 to 104, the JWT logic. The result is \<open>None\<close> where the source has written a
  response and returns from \<^verbatim>\<open>handleRequest\<close>, and the parameters otherwise.
  \<^verbatim>\<open>!this.jwtSecret\<close> holds for \<^verbatim>\<open>undefined\<close> and for the empty string.
\<close>

definition authenticate ::
  "'s env \<Rightarrow> string option \<Rightarrow> controller \<Rightarrow> route \<Rightarrow> request \<Rightarrow> obj \<Rightarrow> ('s, obj option) io" where
  "authenticate env jwtSecret c r req params =
     (case map_of (auth c) (methodName r) of
        None \<Rightarrow> ioReturn (Some params)
      | Some authParams \<Rightarrow>
          (case map_of (headers req) ''authorization'' of
             None \<Rightarrow> ioThen unauthorized (ioReturn None)
           | Some bearerHeader \<Rightarrow>
               if bearerHeader \<noteq> [] \<and> startsWith bearerHeader ''Bearer '' then
                 ioCatch
                   (case jwtSecret of
                      None \<Rightarrow> ioThen internalServerError (ioReturn None)
                    | Some secret \<Rightarrow>
                        if secret = [] then ioThen internalServerError (ioReturn None)
                        else
                          (case bearerToken bearerHeader of
                             None \<Rightarrow> ioThrow VerifyError
                           | Some bearerTokenEncrypted \<Rightarrow>
                               (case verify env bearerTokenEncrypted secret True of
                                  None \<Rightarrow> ioThrow VerifyError
                                | Some decodedToken \<Rightarrow>
                                    ioReturn (Some (bindAuth decodedToken authParams params)))))
                   (\<lambda>error. ioThen unauthorized (ioReturn None))
               else ioThen unauthorized (ioReturn None)))"

text \<open>
  Lines 106 to 128: the cache key, the cache lookup and the invocation of the controller
  method with \<^verbatim>\<open>...Object.values(params)\<close>. A template literal prints \<^verbatim>\<open>undefined\<close> as
  that word and a number as its rendering; \<^verbatim>\<open>res.end(undefined)\<close> sends an empty body.
\<close>

definition template :: "string option \<Rightarrow> string" where
  "template x = (case x of None \<Rightarrow> ''undefined'' | Some s \<Rightarrow> s)"

definition templateNum :: "jsNumber option \<Rightarrow> string" where
  "templateNum x = (case x of None \<Rightarrow> ''undefined'' | Some n \<Rightarrow> numberToString n)"

definition endArg :: "string option \<Rightarrow> string" where
  "endArg x = (case x of None \<Rightarrow> [] | Some s \<Rightarrow> s)"

definition cacheKeyOf :: "'s env \<Rightarrow> string \<Rightarrow> obj \<Rightarrow> string" where
  "cacheKeyOf env fullPath params =
     fullPath @ '':'' @ template (jsonStringify env (objGet params ''params''))"

definition respond :: "'s env \<Rightarrow> controller \<Rightarrow> route \<Rightarrow> string \<Rightarrow> obj \<Rightarrow> ('s, unit) io" where
  "respond env c r fullPath params =
     (let cacheKey = cacheKeyOf env fullPath params
      in if methodName r \<in> set (cachedMethods c) then
           (let TTL = map_of (cacheTtl c) (methodName r)
            in ioBind (cacheGet env cacheKey) (\<lambda>cachedResult.
                 if cachedResult \<noteq> None \<and> cachedResult \<noteq> Some [] then
                   ioThen (setHeader ''X-Cache'' ''HIT'')
                  (ioThen (setHeader ''Cache-Control'' (''public, max-age='' @ templateNum TTL))
                  (ioThen (setHeader ''Content-Type'' ''application/json'')
                          (resEnd (endArg cachedResult))))
                 else
                   ioBind (invoke env c r (objectValues params)) (\<lambda>result.
                   ioThen (cacheSet env cacheKey (jsonStringify env result) TTL)
                  (ioThen (setHeader ''Content-Type'' ''application/json'')
                          (resEnd (endArg (jsonStringify env result)))))))
         else
           ioBind (invoke env c r (objectValues params)) (\<lambda>result.
           ioThen (setHeader ''Content-Type'' ''application/json'')
                  (resEnd (endArg (jsonStringify env result)))))"

text \<open>
  Lines 63 to 129, what runs for a route that passed the test of lines 58 to 62. The
  result says whether \<^verbatim>\<open>handleRequest\<close> returns (\<open>True\<close>) or the loop goes on to the
  next route (\<open>False\<close>).
\<close>

definition serve ::
  "'s env \<Rightarrow> string option \<Rightarrow> request \<Rightarrow> string list \<Rightarrow> controller \<Rightarrow> route \<Rightarrow> ('s, bool) io" where
  "serve env jwtSecret req pathSegments c r =
     (let fullPath = fullPathOf c r;
          fullPathSegments = splitOn (CHR ''/'') fullPath
      in ioBind (extractParams env req fullPath) (\<lambda>params0.
           let params = setCaptures fullPathSegments pathSegments params0
           in if truthy (objGet params ''params'') then
                ioBind (authenticate env jwtSecret c r req params) (\<lambda>a.
                  case a of
                    None \<Rightarrow> ioReturn True
                  | Some params' \<Rightarrow> ioThen (respond env c r fullPath params') (ioReturn True))
              else ioReturn False))"

subsection \<open>\<^verbatim>\<open>handleRequest\<close>\<close>

fun routesLoop ::
  "'s env \<Rightarrow> string option \<Rightarrow> request \<Rightarrow> string list \<Rightarrow> controller \<Rightarrow> route list \<Rightarrow> ('s, bool) io" where
  "routesLoop env jwtSecret req pathSegments c [] = ioReturn False"
| "routesLoop env jwtSecret req pathSegments c (r # rs) =
     (if routeMatches req pathSegments c r then
        ioBind (serve env jwtSecret req pathSegments c r) (\<lambda>returned.
          if returned then ioReturn True
          else routesLoop env jwtSecret req pathSegments c rs)
      else routesLoop env jwtSecret req pathSegments c rs)"

fun controllersLoop ::
  "'s env \<Rightarrow> string option \<Rightarrow> request \<Rightarrow> string list \<Rightarrow> controller list \<Rightarrow> ('s, bool) io" where
  "controllersLoop env jwtSecret req pathSegments [] = ioReturn False"
| "controllersLoop env jwtSecret req pathSegments (c # cs) =
     ioBind (routesLoop env jwtSecret req pathSegments c (routes c)) (\<lambda>returned.
       if returned then ioReturn True
       else controllersLoop env jwtSecret req pathSegments cs)"

text \<open>
  \<^verbatim>\<open>handleRequest\<close>: the \<^verbatim>\<open>try\<close> block and its \<^verbatim>\<open>catch\<close>. An \<open>Inl\<close> result is an exception
  that leaves \<^verbatim>\<open>handleRequest\<close>.
\<close>

definition handleRequest ::
  "'s env \<Rightarrow> string option \<Rightarrow> controller list \<Rightarrow> request \<Rightarrow> ('s, unit) io" where
  "handleRequest env jwtSecret controllers req =
     ioCatch
       (case pathname req of
          None \<Rightarrow> ioThrow InvalidUrl
        | Some urlPathname \<Rightarrow>
            ioBind (controllersLoop env jwtSecret req (splitOn (CHR ''/'') urlPathname) controllers)
              (\<lambda>returned. if returned then ioReturn () else notFound))
       (\<lambda>error. internalServerError)"

text \<open>A response object on which nothing has been set or sent, before a store \<open>s\<close>.\<close>

definition freshWorld :: "'s \<Rightarrow> 's world" where
  "freshWorld s = \<lparr>statusCode = 200, resHeaders = [], writes = [], store = s, events = []\<rparr>"

text \<open>The routes in the order in which the two loops visit them, and the first one that passes the test.\<close>

definition allRoutes :: "controller list \<Rightarrow> (controller \<times> route) list" where
  "allRoutes controllers = concat (map (\<lambda>c. map (Pair c) (routes c)) controllers)"

definition firstMatch :: "request \<Rightarrow> controller list \<Rightarrow> (controller \<times> route) option" where
  "firstMatch req controllers =
     (case pathname req of
        None \<Rightarrow> None
      | Some urlPathname \<Rightarrow>
          find (\<lambda>(c, r). routeMatches req (splitOn (CHR ''/'') urlPathname) c r)
               (allRoutes controllers))"

section \<open>Example collaborators, routes and requests\<close>

text \<open>
  Concrete instances for the examples below.

  Modelled from the spec: the cache store boundary, \<^verbatim>\<open>get(key)\<close> and
  \<^verbatim>\<open>set(key, value, ttlSeconds)\<close>, as a table in memory whose entries do not expire (a write
  puts the entry in front; an \<^verbatim>\<open>undefined\<close> value is sent as the empty string), beside a
  store that cannot be reached.

  Modelled from the spec: the token verification boundary,
  \<^verbatim>\<open>verify(token, secret, {ignoreExpiration})\<close>, for two tokens signed with the secret
  \<^verbatim>\<open>s3cret\<close>, one of them expired.

  The serialiser covers flat values without characters to escape and the parser knows one
  body. The method \<^verbatim>\<open>account\<close> answers with the \<^verbatim>\<open>sub\<close> claim of its first argument, every
  other method with its own name.
\<close>

definition memGet :: "(string \<times> string) list \<Rightarrow> string \<Rightarrow> exn + string option" where
  "memGet s key = Inr (map_of s key)"

definition memSet ::
  "(string \<times> string) list \<Rightarrow> string \<Rightarrow> string option \<Rightarrow> jsNumber option \<Rightarrow> exn + (string \<times> string) list" where
  "memSet s key val ttl = Inr ((key, endArg val) # s)"

definition downGet :: "(string \<times> string) list \<Rightarrow> string \<Rightarrow> exn + string option" where
  "downGet s key = Inl (External ''ECONNREFUSED'')"

definition downSet ::
  "(string \<times> string) list \<Rightarrow> string \<Rightarrow> string option \<Rightarrow> jsNumber option \<Rightarrow> exn + (string \<times> string) list" where
  "downSet s key val ttl = Inl (External ''ECONNREFUSED'')"

definition quoted :: "string \<Rightarrow> string" where
  "quoted s = CHR 0x22 # s @ [CHR 0x22]"

fun joinComma :: "string list \<Rightarrow> string" where
  "joinComma [] = []"
| "joinComma [x] = x"
| "joinComma (x # y # zs) = x @ '','' @ joinComma (y # zs)"

fun exAtom :: "jsval \<Rightarrow> string" where
  "exAtom (JStr s) = quoted s"
| "exAtom (JNum n) = (if n < 0 then ''-'' @ showNat (nat (- n)) else showNat (nat n))"
| "exAtom (JBool b) = (if b then ''true'' else ''false'')"
| "exAtom v = ''null''"

fun exStringify :: "jsval \<Rightarrow> string option" where
  "exStringify JUndefined = None"
| "exStringify (JObj props) =
     Some (''{'' @ joinComma (map (\<lambda>(k, v). quoted k @ '':'' @ exAtom v) props) @ ''}'')"
| "exStringify (JArr xs) = Some (''['' @ joinComma (map exAtom xs) @ '']'')"
| "exStringify v = Some (exAtom v)"

definition exParse :: "string \<Rightarrow> jsval option" where
  \<open>exParse raw = (if raw = ''{"qty":3}'' then Some (JObj [(''qty'', JNum 3)]) else None)\<close>

definition exVerify :: "string \<Rightarrow> string \<Rightarrow> bool \<Rightarrow> obj option" where
  "exVerify token secret ignoreExpiration =
     (if secret = ''s3cret'' \<and> token = ''valid'' then
        Some [(''sub'', JStr ''alice''), (''exp'', JNum 4102444800)]
      else if secret = ''s3cret'' \<and> token = ''expired'' \<and> ignoreExpiration then
        Some [(''sub'', JStr ''bob''), (''exp'', JNum 1)]
      else None)"

definition exHandler :: "string \<Rightarrow> string \<Rightarrow> jsval list \<Rightarrow> exn + jsval" where
  "exHandler ctrl meth args =
     (if meth = ''account'' then
        (case args of
           JObj claims # rest \<Rightarrow> Inr (JObj [(''owner'', objGet claims ''sub'')])
         | _ \<Rightarrow> Inl (External ''no claims''))
      else Inr (JObj [(''handledBy'', JStr meth)]))"

definition exEnv :: "(string \<times> string) list env" where
  "exEnv = \<lparr>jsonParse = exParse, jsonStringify = exStringify, verify = exVerify,
            handler = exHandler, redisGet = memGet, redisSet = memSet\<rparr>"

definition exEnvGetDown :: "(string \<times> string) list env" where
  "exEnvGetDown = exEnv\<lparr>redisGet := downGet\<rparr>"

definition exEnvSetDown :: "(string \<times> string) list env" where
  "exEnvSetDown = exEnv\<lparr>redisSet := downSet\<rparr>"

text \<open>
  Controller \<^verbatim>\<open>a\<close> has \<^verbatim>\<open>GET /a/:x\<close> before \<^verbatim>\<open>GET /a/b\<close>. Controller \<^verbatim>\<open>api\<close> has
  \<^verbatim>\<open>POST /api/orders\<close>, whose second parameter is the \<^verbatim>\<open>sub\<close> claim, the cached
  \<^verbatim>\<open>GET /api/report\<close> (60 seconds), and the cached \<^verbatim>\<open>GET /api/account\<close> (30 seconds), whose
  first parameter is the whole set of claims.
\<close>

definition routeAX :: route where
  "routeAX = \<lparr>path = ''/:x'', requestMethod = Get, methodName = ''byParam''\<rparr>"

definition routeAB :: route where
  "routeAB = \<lparr>path = ''/b'', requestMethod = Get, methodName = ''exactB''\<rparr>"

definition ctrlA :: controller where
  "ctrlA = \<lparr>ctrlName = ''AController'', prefix = ''a'', routes = [routeAX, routeAB],
            cachedMethods = [], auth = [], cacheTtl = []\<rparr>"

definition routeOrders :: route where
  "routeOrders = \<lparr>path = ''/orders'', requestMethod = Post, methodName = ''createOrder''\<rparr>"

definition routeReport :: route where
  "routeReport = \<lparr>path = ''/report'', requestMethod = Get, methodName = ''report''\<rparr>"

definition routeAccount :: route where
  "routeAccount = \<lparr>path = ''/account'', requestMethod = Get, methodName = ''account''\<rparr>"

definition ctrlApi :: controller where
  "ctrlApi = \<lparr>ctrlName = ''ApiController'', prefix = ''api'',
              routes = [routeOrders, routeReport, routeAccount],
              cachedMethods = [''report'', ''account''],
              auth = [(''createOrder'', [(1, ''sub'')]), (''account'', [(0, ''__allAuthParams'')])],
              cacheTtl = [(''report'', Rendered ''60''), (''account'', Rendered ''30'')]\<rparr>"

definition exControllers :: "controller list" where
  "exControllers = [ctrlA, ctrlApi]"

definition getRequest :: "string \<Rightarrow> (string \<times> string) list \<Rightarrow> request" where
  "getRequest url hs =
     \<lparr>reqMethod = Some ''GET'', pathname = Some url, headers = hs, query = JObj [],
      body = StreamEnd []\<rparr>"

definition postRequest :: "string \<Rightarrow> (string \<times> string) list \<Rightarrow> string list \<Rightarrow> request" where
  "postRequest url hs chunks =
     \<lparr>reqMethod = Some ''POST'', pathname = Some url, headers = hs, query = JObj [],
      body = StreamEnd chunks\<rparr>"

section \<open>Notions used in the statements\<close>

text \<open>An event that is not the invocation of another route's method.\<close>

definition ownEvent :: "controller \<Rightarrow> route \<Rightarrow> event \<Rightarrow> bool" where
  "ownEvent c r ev =
     (case ev of
        Invoked cn mn args \<Rightarrow> cn = ctrlName c \<and> mn = methodName r
      | _ \<Rightarrow> True)"

text \<open>
  The world after one JSON response with status \<open>st\<close> and body \<open>b\<close> has been sent on
  a response object of world \<open>w\<close>; store and events are those of \<open>w\<close>.
\<close>

definition answered :: "nat \<Rightarrow> string \<Rightarrow> 's world \<Rightarrow> 's world" where
  "answered st b w =
     w\<lparr>statusCode := st,
       resHeaders := upsert ''Content-Type'' ''application/json'' (resHeaders w),
       writes := [(st, upsert ''Content-Type'' ''application/json'' (resHeaders w), b)]\<rparr>"

section \<open>The object model and the matcher\<close>

lemma splitOn_nonempty: "splitOn sep s \<noteq> []"
  by (induction s) (auto split: list.splits)

lemma objSet_proto: "objSet ''__proto__'' v ob = ob"
  by (simp add: objSet_def)

lemma map_of_objSet:
  "map_of (objSet k v ob) k' = (if k' = k \<and> k \<noteq> ''__proto__'' then Some v else map_of ob k')"
proof (cases "k = ''__proto__''")
  case True
  then show ?thesis by (simp add: objSet_proto)
next
  case ordinary: False
  show ?thesis
  proof (cases "map_of ob k")
    case (Some a)
    have "map_of (map (\<lambda>(k', v'). if k' = k then (k', v) else (k', v')) ob) k'
          = (if k' = k \<and> map_of ob k \<noteq> None then Some v else map_of ob k')"
      by (induction ob) (auto split: if_splits)
    with Some ordinary show ?thesis by (simp add: objSet_def)
  next
    case None
    have tw: "map_of (takeWhile P ob) k = None" for P
    proof -
      have "k \<notin> fst ` set ob" using None by (simp add: map_of_eq_None_iff)
      moreover have "set (takeWhile P ob) \<subseteq> set ob" by (auto dest: set_takeWhileD)
      ultimately have "k \<notin> fst ` set (takeWhile P ob)" by blast
      then show ?thesis by (simp add: map_of_eq_None_iff)
    qed
    have app: "map_of (takeWhile P ob @ dropWhile P ob) k' = map_of ob k'" for P
      by simp
    have idx: "map_of (takeWhile P ob @ [(k, v)] @ dropWhile P ob) k' = (if k' = k then Some v else map_of ob k')" for P
      using tw[of P] app[of P] unfolding map_of_append
      by (auto simp: map_add_def split: option.splits)
    have app2: "map_of (ob @ [(k, v)]) k' = (if k' = k then Some v else map_of ob k')"
      using None by (auto simp: map_add_def split: option.splits)
    show ?thesis
    proof (cases "isArrayIndex k")
      case True
      with None ordinary have "objSet k v ob = takeWhile (\<lambda>(k', v'). isArrayIndex k' \<and> decimal k' < decimal k) ob @ [(k, v)]
          @ dropWhile (\<lambda>(k', v'). isArrayIndex k' \<and> decimal k' < decimal k) ob"
        by (simp add: objSet_def Let_def)
      then show ?thesis using idx[of "\<lambda>(k', v'). isArrayIndex k' \<and> decimal k' < decimal k"] ordinary by simp
    next
      case False
      with None ordinary have "objSet k v ob = ob @ [(k, v)]" by (simp add: objSet_def)
      then show ?thesis using app2 ordinary by simp
    qed
  qed
qed

lemma all_less_Cons:
  "(\<forall>i<length (r # rs). P ((r # rs) ! i) ((u # us) ! i)) = (P r u \<and> (\<forall>i<length rs. P (rs ! i) (us ! i)))"
proof
  assume h: "\<forall>i<length (r # rs). P ((r # rs) ! i) ((u # us) ! i)"
  have "P r u" using h[rule_format, of 0] by simp
  moreover have "P (rs ! i) (us ! i)" if "i < length rs" for i
    using h[rule_format, of "Suc i"] that by simp
  ultimately show "P r u \<and> (\<forall>i<length rs. P (rs ! i) (us ! i))" by blast
next
  assume h: "P r u \<and> (\<forall>i<length rs. P (rs ! i) (us ! i))"
  show "\<forall>i<length (r # rs). P ((r # rs) ! i) ((u # us) ! i)"
  proof (intro allI impI)
    fix i assume "i < length (r # rs)"
    then show "P ((r # rs) ! i) ((u # us) ! i)" using h by (cases i) auto
  qed
qed

lemma matchLoop_ok:
  "length rs = length us \<Longrightarrow>
   (matchLoop rs us acc \<noteq> None) = (\<forall>i<length rs. \<not> startsWith (rs ! i) '':'' \<longrightarrow> rs ! i = us ! i)"
proof (induction rs us arbitrary: acc rule: list_induct2)
  case Nil
  then show ?case by simp
next
  case (Cons r rs u us)
  have split: "(\<forall>i<length (r # rs). \<not> startsWith ((r # rs) ! i) '':'' \<longrightarrow> (r # rs) ! i = (u # us) ! i)
     = ((\<not> startsWith r '':'' \<longrightarrow> r = u) \<and> (\<forall>i<length rs. \<not> startsWith (rs ! i) '':'' \<longrightarrow> rs ! i = us ! i))"
    by (rule all_less_Cons[where P = "\<lambda>a b. \<not> startsWith a '':'' \<longrightarrow> a = b"])
  show ?case
    unfolding split using Cons.IH by (cases "startsWith r '':''") simp_all
qed


lemma matchLoop_params:
  "length rs = length us \<Longrightarrow> matchLoop rs us acc = Some params \<Longrightarrow>
   (\<forall>i<length rs. startsWith (rs ! i) '':'' \<and> slice1 (rs ! i) \<noteq> ''__proto__'' \<and>
        (\<forall>j. i < j \<and> j < length rs \<and> startsWith (rs ! j) '':'' \<longrightarrow> slice1 (rs ! j) \<noteq> slice1 (rs ! i))
        \<longrightarrow> map_of params (slice1 (rs ! i)) = Some (JStr (us ! i)))
   \<and> (\<forall>k. k = ''__proto__'' \<or> (\<forall>j<length rs. startsWith (rs ! j) '':'' \<longrightarrow> slice1 (rs ! j) \<noteq> k)
        \<longrightarrow> map_of params k = map_of acc k)"
proof (induction rs us arbitrary: acc rule: list_induct2)
  case Nil
  then show ?case by simp
next
  case (Cons r rs u us)
  define acc' where "acc' = (if startsWith r '':'' then objSet (slice1 r) (JStr u) acc else acc)"
  have ml: "matchLoop rs us acc' = Some params"
    using Cons.prems by (auto simp: acc'_def split: if_splits)
  note IH1 = Cons.IH[OF ml, THEN conjunct1, rule_format]
  note IH2 = Cons.IH[OF ml, THEN conjunct2, rule_format]
  have acc'_other: "map_of acc' k = map_of acc k" if "k = ''__proto__'' \<or> (startsWith r '':'' \<longrightarrow> slice1 r \<noteq> k)" for k
  proof (cases "startsWith r '':''")
    case True
    then have "k = ''__proto__'' \<or> k \<noteq> slice1 r" using that by blast
    then show ?thesis using True by (auto simp: acc'_def map_of_objSet)
  next
    case False
    then show ?thesis by (simp add: acc'_def)
  qed
  have acc'_self: "map_of acc' (slice1 r) = Some (JStr u)" if "startsWith r '':''" and "slice1 r \<noteq> ''__proto__''"
    using that by (simp add: acc'_def map_of_objSet)
  have tail_names: "\<forall>j<length rs. startsWith (rs ! j) '':'' \<longrightarrow> slice1 (rs ! j) \<noteq> k"
    if h: "\<forall>j<length (r # rs). startsWith ((r # rs) ! j) '':'' \<longrightarrow> slice1 ((r # rs) ! j) \<noteq> k" for k
  proof (intro allI impI)
    fix j assume "j < length rs" and "startsWith (rs ! j) '':''"
    then show "slice1 (rs ! j) \<noteq> k" using h[rule_format, of "Suc j"] by simp
  qed
  show ?case
  proof (intro conjI allI impI)
    fix i assume il: "i < length (r # rs)"
      and h: "startsWith ((r # rs) ! i) '':'' \<and> slice1 ((r # rs) ! i) \<noteq> ''__proto__'' \<and>
          (\<forall>j. i < j \<and> j < length (r # rs) \<and> startsWith ((r # rs) ! j) '':'' \<longrightarrow>
               slice1 ((r # rs) ! j) \<noteq> slice1 ((r # rs) ! i))"
    note later = h[THEN conjunct2, THEN conjunct2, rule_format]
    show "map_of params (slice1 ((r # rs) ! i)) = Some (JStr ((u # us) ! i))"
    proof (cases i)
      case 0
      with h have cap: "startsWith r '':''" and ord: "slice1 r \<noteq> ''__proto__''" by simp_all
      have "\<forall>j<length rs. startsWith (rs ! j) '':'' \<longrightarrow> slice1 (rs ! j) \<noteq> slice1 r"
      proof (intro allI impI)
        fix j assume "j < length rs" and "startsWith (rs ! j) '':''"
        then show "slice1 (rs ! j) \<noteq> slice1 r"
          using later[of "Suc j"] 0 by simp
      qed
      then have "map_of params (slice1 r) = map_of acc' (slice1 r)"
        by (intro IH2 disjI2)
      with 0 cap ord show ?thesis by (simp add: acc'_self)
    next
      case (Suc i')
      have "map_of params (slice1 (rs ! i')) = Some (JStr (us ! i'))"
      proof (rule IH1, goal_cases)
        case 1
        show ?case using il Suc by simp
      next
        case 2
        have "startsWith (rs ! i') '':''" using h Suc by simp
        moreover have "slice1 (rs ! i') \<noteq> ''__proto__''" using h Suc by simp
        moreover have "\<forall>j. i' < j \<and> j < length rs \<and> startsWith (rs ! j) '':'' \<longrightarrow> slice1 (rs ! j) \<noteq> slice1 (rs ! i')"
        proof (intro allI impI)
          fix j assume "i' < j \<and> j < length rs \<and> startsWith (rs ! j) '':''"
          then show "slice1 (rs ! j) \<noteq> slice1 (rs ! i')"
            using later[of "Suc j"] Suc by simp
        qed
        ultimately show ?case by (intro conjI)
      qed
      then show ?thesis using Suc by simp
    qed
  next
    fix k assume h: "k = ''__proto__'' \<or> (\<forall>j<length (r # rs). startsWith ((r # rs) ! j) '':'' \<longrightarrow> slice1 ((r # rs) ! j) \<noteq> k)"
    have "k = ''__proto__'' \<or> (startsWith r '':'' \<longrightarrow> slice1 r \<noteq> k)"
    proof (cases "k = ''__proto__''")
      case True
      then show ?thesis by simp
    next
      case False
      with h have h': "\<forall>j<length (r # rs). startsWith ((r # rs) ! j) '':'' \<longrightarrow> slice1 ((r # rs) ! j) \<noteq> k" by simp
      show ?thesis using h'[rule_format, of 0] by simp
    qed
    then have "map_of acc' k = map_of acc k" by (rule acc'_other)
    moreover have "map_of params k = map_of acc' k"
    proof (cases "k = ''__proto__''")
      case True
      then show ?thesis by (intro IH2 disjI1)
    next
      case False
      with h have h': "\<forall>j<length (r # rs). startsWith ((r # rs) ! j) '':'' \<longrightarrow> slice1 ((r # rs) ! j) \<noteq> k" by simp
      show ?thesis by (intro IH2 disjI2 tail_names[OF h'])
    qed
    ultimately show "map_of params k = map_of acc k" by simp
  qed
qed

lemma matchRoute_Some_iff:
  "(\<exists>params. matchRoute rt url = Some params) =
   (length (splitOn (CHR ''/'') rt) = length (splitOn (CHR ''/'') url)
    \<and> (\<forall>i<length (splitOn (CHR ''/'') rt).
          \<not> startsWith (splitOn (CHR ''/'') rt ! i) '':''
          \<longrightarrow> splitOn (CHR ''/'') rt ! i = splitOn (CHR ''/'') url ! i))"
proof (cases "length (splitOn (CHR ''/'') rt) = length (splitOn (CHR ''/'') url)")
  case True
  then have "matchRoute rt url = matchLoop (splitOn (CHR ''/'') rt) (splitOn (CHR ''/'') url) []"
    by (simp add: matchRoute_def)
  then show ?thesis using matchLoop_ok[OF True, of "[]"] True by simp
next
  case False
  then show ?thesis by (simp add: matchRoute_def)
qed

lemma map_of_objSet_upd: "k \<noteq> ''__proto__'' \<Longrightarrow> map_of (objSet k v ob) = (map_of ob)(k \<mapsto> v)"
  by (rule ext) (simp add: map_of_objSet)

lemma objSet_keys_present:
  assumes "map_of ob k \<noteq> None"
  shows "map fst (objSet k v ob) = map fst ob"
proof -
  have "map fst (map (\<lambda>(k', v'). if k' = k then (k', v) else (k', v')) ob) = map fst ob"
    by (induction ob) auto
  with assms show ?thesis by (simp add: objSet_def)
qed

lemma objSet_distinct:
  assumes "distinct (map fst ob)"
  shows "distinct (map fst (objSet k v ob))"
proof (cases "k = ''__proto__''")
  case True
  then show ?thesis using assms by (simp add: objSet_proto)
next
  case ordinary: False
  show ?thesis
  proof (cases "map_of ob k")
    case (Some a)
    then show ?thesis using assms by (simp add: objSet_keys_present)
  next
    case None
    then have fresh: "k \<notin> fst ` set ob" by (simp add: map_of_eq_None_iff)
    have ins: "distinct (map fst (takeWhile P ob @ [(k, v)] @ dropWhile P ob))" for P
    proof -
      have "distinct (map fst (takeWhile P ob @ dropWhile P ob))" using assms by simp
      moreover have "k \<notin> fst ` set (takeWhile P ob)" using fresh by (auto dest: set_takeWhileD)
      moreover have "k \<notin> fst ` set (dropWhile P ob)" using fresh by (auto dest: set_dropWhileD)
      ultimately show ?thesis by (auto simp del: takeWhile_dropWhile_id)
    qed
    have app: "distinct (map fst (ob @ [(k, v)]))" using assms fresh by auto
    show ?thesis
    proof (cases "isArrayIndex k")
      case True
      with None ordinary have "objSet k v ob = takeWhile (\<lambda>(k', v'). isArrayIndex k' \<and> decimal k' < decimal k) ob @ [(k, v)]
          @ dropWhile (\<lambda>(k', v'). isArrayIndex k' \<and> decimal k' < decimal k) ob"
        by (simp add: objSet_def Let_def)
      then show ?thesis using ins by simp
    next
      case False
      with None ordinary have "objSet k v ob = ob @ [(k, v)]" by (simp add: objSet_def)
      then show ?thesis using app by simp
    qed
  qed
qed

lemma assoc_eqI:
  "map fst a = map fst b \<Longrightarrow> distinct (map fst a) \<Longrightarrow> map_of a = map_of b \<Longrightarrow> a = b"
proof (induction a arbitrary: b)
  case Nil
  then show ?case by simp
next
  case (Cons x a)
  then obtain y b' where b: "b = y # b'" by (cases b) auto
  obtain k v where x: "x = (k, v)" by (cases x)
  obtain k' v' where y: "y = (k', v')" by (cases y)
  have kk: "k' = k" using Cons.prems(1) b x y by simp
  have "map_of (x # a) k = map_of b k" using Cons.prems(3) by (rule fun_cong)
  then have vv: "v' = v" using b x y kk by simp
  have notin: "k \<notin> fst ` set a" using Cons.prems(2) x by simp
  have notin': "k \<notin> fst ` set b'" using Cons.prems(1,2) b x y
    by (metis distinct.simps(2) fst_conv list.simps(9) list.inject set_map)
  have "map_of a = map_of b'"
  proof (rule ext)
    fix z
    show "map_of a z = map_of b' z"
    proof (cases "z = k")
      case True
      have "map_of a k = None" "map_of b' k = None"
        using notin notin' by (simp_all add: map_of_eq_None_iff)
      then show ?thesis using True by simp
    next
      case False
      have "map_of (x # a) z = map_of b z" using Cons.prems(3) by (rule fun_cong)
      then show ?thesis using False b x y kk by simp
    qed
  qed
  moreover have "map fst a = map fst b'" using Cons.prems(1) b by simp
  moreover have "distinct (map fst a)" using Cons.prems(2) by simp
  ultimately have "a = b'" by (rule Cons.IH[rotated 2])
  then show ?case using b x y kk vv by simp
qed

text \<open>The assignments made by one pass over the capture segments.\<close>

lemma fold_index_nth:
  "fold (\<lambda>i. f (xs ! i)) [0..<length xs] a = fold f xs a"
proof (induction xs arbitrary: a rule: rev_induct)
  case Nil
  then show ?case by simp
next
  case (snoc x xs)
  have "fold (\<lambda>i. f ((xs @ [x]) ! i)) [0..<length xs] a = fold (\<lambda>i. f (xs ! i)) [0..<length xs] a"
    by (rule fold_cong) (auto simp: nth_append)
  then show ?case using snoc by simp
qed

lemma fold_index_zip:
  assumes "length rs = length us"
  shows "fold (\<lambda>i. g (rs ! i) (us ! i)) [0..<length rs] a = fold (\<lambda>(r, u). g r u) (zip rs us) a"
proof -
  have "fold (\<lambda>i. (\<lambda>(r, u). g r u) (zip rs us ! i)) [0..<length (zip rs us)] a
        = fold (\<lambda>(r, u). g r u) (zip rs us) a"
    by (rule fold_index_nth)
  moreover have "fold (\<lambda>i. (\<lambda>(r, u). g r u) (zip rs us ! i)) [0..<length (zip rs us)] a
        = fold (\<lambda>i. g (rs ! i) (us ! i)) [0..<length rs] a"
    using assms by (intro fold_cong) auto
  ultimately show ?thesis by simp
qed

lemma matchLoop_fold:
  "length rs = length us \<Longrightarrow> matchLoop rs us acc = Some params \<Longrightarrow>
   params = fold (\<lambda>(r, u) a. if startsWith r '':'' then objSet (slice1 r) (JStr u) a else a) (zip rs us) acc"
proof (induction rs us arbitrary: acc rule: list_induct2)
  case Nil
  then show ?case by simp
next
  case (Cons r rs u us)
  then show ?case by (cases "startsWith r '':''") (auto split: if_splits)
qed

lemma captures_fold_facts:
  "distinct (map fst x) \<Longrightarrow>
   distinct (map fst (fold (\<lambda>(r, u) a. if startsWith r '':'' then objSet (slice1 r) (JStr u) a else a) zs x))
   \<and> map_of (fold (\<lambda>(r, u) a. if startsWith r '':'' then objSet (slice1 r) (JStr u) a else a) zs x)
       = map_of x ++ map_of (rev (map (\<lambda>(r, u). (slice1 r, JStr u))
                                  (filter (\<lambda>(r, u). startsWith r '':'' \<and> slice1 r \<noteq> ''__proto__'') zs)))"
proof (induction zs arbitrary: x)
  case Nil
  then show ?case by simp
next
  case (Cons z zs)
  obtain r u where z: "z = (r, u)" by (cases z)
  show ?case
  proof (cases "startsWith r '':'' \<and> slice1 r \<noteq> ''__proto__''")
    case True
    have d: "distinct (map fst (objSet (slice1 r) (JStr u) x))"
      using Cons.prems by (rule objSet_distinct)
    show ?thesis using Cons.IH[OF d] True z
      by (simp add: map_of_objSet_upd map_add_def fun_eq_iff split: option.splits)
  next
    case False
    have same: "(case z of (r, u) \<Rightarrow> \<lambda>a. if startsWith r '':'' then objSet (slice1 r) (JStr u) a else a) x = x"
      using False z by (auto simp: objSet_proto)
    have flt: "filter (\<lambda>(r, u). startsWith r '':'' \<and> slice1 r \<noteq> ''__proto__'') (z # zs)
                 = filter (\<lambda>(r, u). startsWith r '':'' \<and> slice1 r \<noteq> ''__proto__'') zs"
      using False z by simp
    show ?thesis using Cons.IH[OF Cons.prems]
      by (simp only: fold_simps o_apply same flt)
  qed
qed

lemma captures_fold_keys:
  "(\<forall>(r, u) \<in> set zs. startsWith r '':'' \<and> slice1 r \<noteq> ''__proto__'' \<longrightarrow> map_of x (slice1 r) \<noteq> None) \<Longrightarrow>
   map fst (fold (\<lambda>(r, u) a. if startsWith r '':'' then objSet (slice1 r) (JStr u) a else a) zs x) = map fst x"
proof (induction zs arbitrary: x)
  case Nil
  then show ?case by simp
next
  case (Cons z zs)
  obtain r u where z: "z = (r, u)" by (cases z)
  show ?case
  proof (cases "startsWith r '':'' \<and> slice1 r \<noteq> ''__proto__''")
    case True
    then have pres: "map_of x (slice1 r) \<noteq> None" using Cons.prems z by auto
    have "map_of (objSet (slice1 r) (JStr u) x) (slice1 r') \<noteq> None"
      if "(r', u') \<in> set zs" and "startsWith r' '':''" and "slice1 r' \<noteq> ''__proto__''" for r' u'
    proof -
      have "map_of x (slice1 r') \<noteq> None" using Cons.prems that by auto
      then show ?thesis by (simp add: map_of_objSet)
    qed
    then have "\<forall>(r', u') \<in> set zs. startsWith r' '':'' \<and> slice1 r' \<noteq> ''__proto__''
            \<longrightarrow> map_of (objSet (slice1 r) (JStr u) x) (slice1 r') \<noteq> None"
      by blast
    from Cons.IH[OF this] show ?thesis using True z pres by (simp add: objSet_keys_present)
  next
    case False
    then have same: "(case z of (r, u) \<Rightarrow> \<lambda>a. if startsWith r '':'' then objSet (slice1 r) (JStr u) a else a) x = x"
      using z by (auto simp: objSet_proto)
    have "\<forall>(r', u') \<in> set zs. startsWith r' '':'' \<and> slice1 r' \<noteq> ''__proto__'' \<longrightarrow> map_of x (slice1 r') \<noteq> None"
      using Cons.prems by auto
    from Cons.IH[OF this] show ?thesis
      by (simp only: fold_simps o_apply same)
  qed
qed

lemma captures_fold_idem:
  assumes "distinct (map fst acc)"
  shows "fold (\<lambda>(r, u) a. if startsWith r '':'' then objSet (slice1 r) (JStr u) a else a) zs
           (fold (\<lambda>(r, u) a. if startsWith r '':'' then objSet (slice1 r) (JStr u) a else a) zs acc)
         = fold (\<lambda>(r, u) a. if startsWith r '':'' then objSet (slice1 r) (JStr u) a else a) zs acc"
proof -
  let ?g = "\<lambda>(r, u) a. if startsWith r '':'' then objSet (slice1 r) (JStr u) a else a"
  let ?caps = "rev (map (\<lambda>(r, u). (slice1 r, JStr u))
                      (filter (\<lambda>(r, u). startsWith r '':'' \<and> slice1 r \<noteq> ''__proto__'') zs))"
  let ?M = "map_of ?caps"
  let ?y = "fold ?g zs acc"
  have y: "distinct (map fst ?y)" "map_of ?y = map_of acc ++ ?M"
    using captures_fold_facts[OF assms, of zs] by simp_all
  have yy: "distinct (map fst (fold ?g zs ?y))" "map_of (fold ?g zs ?y) = map_of ?y ++ ?M"
    using captures_fold_facts[OF y(1), of zs] by simp_all
  have key: "map_of ?y (slice1 r) \<noteq> None"
    if "(r, u) \<in> set zs" and "startsWith r '':''" and "slice1 r \<noteq> ''__proto__''" for r u
  proof -
    have "(slice1 r, JStr u) \<in> set ?caps"
      using that by force
    then have "slice1 r \<in> fst ` set ?caps"
      by (rule image_eqI[rotated]) simp
    then have "?M (slice1 r) \<noteq> None"
      by (simp only: map_of_eq_None_iff not_not)
    then show ?thesis using y(2) by (auto simp: map_add_def split: option.splits)
  qed
  have keys: "\<forall>(r, u) \<in> set zs. startsWith r '':'' \<and> slice1 r \<noteq> ''__proto__'' \<longrightarrow> map_of ?y (slice1 r) \<noteq> None"
    using key by blast
  have "map fst (fold ?g zs ?y) = map fst ?y" by (rule captures_fold_keys[OF keys])
  moreover have "map_of (fold ?g zs ?y) = map_of ?y"
  proof -
    have "(m ++ n) ++ n = m ++ n" for m n :: "string \<rightharpoonup> jsval"
      by (rule ext) (simp add: map_add_def split: option.splits)
    then show ?thesis using yy(2) y(2) by simp
  qed
  ultimately show ?thesis using yy(1) by (intro assoc_eqI) simp_all
qed

section \<open>The dispatcher, stage by stage\<close>

lemma ioBind_return_left: "ioBind (ioReturn x) f = f x"
  by (simp add: ioBind_def ioReturn_def)

lemma ioBind_throw_left: "ioBind (ioThrow e) f = ioThrow e"
  by (simp add: ioBind_def ioThrow_def)

lemma ioBind_assoc: "ioBind (ioBind m f) g = ioBind m (\<lambda>x. ioBind (f x) g)"
  by (rule ext) (simp add: ioBind_def split: prod.splits sum.splits)

text \<open>The test of lines 58 to 62 accepts a path exactly when \<^verbatim>\<open>matchRoute\<close> does.\<close>

lemma routeMatches_matchRoute:
  "routeMatches req (splitOn (CHR ''/'') url) c r =
     (map_option toLowerCase (reqMethod req) = Some (methodString (requestMethod r))
      \<and> (\<exists>ps. matchRoute (fullPathOf c r) url = Some ps))"
  unfolding routeMatches_def Let_def matchRoute_Some_iff
  by (auto simp: list_all_iff)

text \<open>Writing the captures once more (lines 65 to 71) changes nothing.\<close>

lemma setCaptures_noop:
  assumes "matchRoute (fullPathOf c r) url = Some ps"
  shows "setCaptures (splitOn (CHR ''/'') (fullPathOf c r)) (splitOn (CHR ''/'') url)
           [(''body'', b), (''params'', JObj ps), (''headers'', h), (''query'', q)]
         = [(''body'', b), (''params'', JObj ps), (''headers'', h), (''query'', q)]"
proof -
  let ?rs = "splitOn (CHR ''/'') (fullPathOf c r)"
  let ?us = "splitOn (CHR ''/'') url"
  let ?g = "\<lambda>r u a. if startsWith r '':'' then objSet (slice1 r) (JStr u) a else a"
  from assms have len: "length ?rs = length ?us" and ml: "matchLoop ?rs ?us [] = Some ps"
    by (auto simp: matchRoute_def Let_def split: if_splits)
  have ps: "ps = fold (\<lambda>(r, u). ?g r u) (zip ?rs ?us) []"
    using matchLoop_fold[OF len ml] .
  have "fold (\<lambda>i. ?g (?rs ! i) (?us ! i)) [0..<length ?rs] ps = fold (\<lambda>(r, u). ?g r u) (zip ?rs ?us) ps"
    by (rule fold_index_zip[OF len])
  also have "\<dots> = ps"
    using captures_fold_idem[of "[]" "zip ?rs ?us"] ps by simp
  finally have again: "fold (\<lambda>i. ?g (?rs ! i) (?us ! i)) [0..<length ?rs] ps = ps" .
  show ?thesis
    unfolding setCaptures_def by (simp add: objGet_def again objSet_def)
qed

text \<open>What \<^verbatim>\<open>serve\<close> does for a route that passed the test: it never asks for the next route.\<close>

lemma serve_matched:
  assumes "pathname req = Some url"
    and "matchRoute (fullPathOf c r) url = Some ps"
  shows "serve env jwtSecret req (splitOn (CHR ''/'') url) c r =
     ioBind (if map_option toLowerCase (reqMethod req) \<noteq> Some ''get''
                 \<and> map_of (headers req) ''content-type'' = Some ''application/json''
              then getJsonBody env req else ioReturn (JObj []))
       (\<lambda>bdy. ioBind (authenticate env jwtSecret c r req
                  [(''body'', bdy), (''params'', JObj ps), (''headers'', headersObj req), (''query'', query req)])
          (\<lambda>a. case a of
                  None \<Rightarrow> ioReturn True
                | Some params' \<Rightarrow> ioThen (respond env c r (fullPathOf c r) params') (ioReturn True)))"
  unfolding serve_def extractParams_def Let_def
  by (simp add: assms ioBind_assoc ioBind_return_left setCaptures_noop[OF assms(2)] objGet_def)

lemma serve_matched_returns:
  assumes "pathname req = Some url"
    and "matchRoute (fullPathOf c r) url = Some ps"
  shows "fst (serve env jwtSecret req (splitOn (CHR ''/'') url) c r w) \<noteq> Inr False"
  unfolding serve_matched[OF assms]
  by (auto simp: ioBind_def ioReturn_def ioThen_def split: prod.splits sum.splits option.splits)

text \<open>The two loops stop at the first route that passes the test.\<close>

lemma routesLoop_find:
  assumes "pathname req = Some url"
  shows "routesLoop env jwtSecret req (splitOn (CHR ''/'') url) c rs =
     (case find (routeMatches req (splitOn (CHR ''/'') url) c) rs of
        None \<Rightarrow> ioReturn False
      | Some r \<Rightarrow> serve env jwtSecret req (splitOn (CHR ''/'') url) c r)"
proof (induction rs)
  case Nil
  then show ?case by simp
next
  case (Cons r rs)
  show ?case
  proof (cases "routeMatches req (splitOn (CHR ''/'') url) c r")
    case True
    then obtain ps where ps: "matchRoute (fullPathOf c r) url = Some ps"
      by (auto simp: routeMatches_matchRoute)
    have "ioBind (serve env jwtSecret req (splitOn (CHR ''/'') url) c r)
            (\<lambda>returned. if returned then ioReturn True
                         else routesLoop env jwtSecret req (splitOn (CHR ''/'') url) c rs) w
          = serve env jwtSecret req (splitOn (CHR ''/'') url) c r w" for w
      using serve_matched_returns[OF assms ps, of env jwtSecret w]
      by (auto simp: ioBind_def ioReturn_def split: prod.splits sum.splits)
    then show ?thesis using True by (simp add: fun_eq_iff)
  next
    case False
    then show ?thesis using Cons.IH by simp
  qed
qed

lemma controllersLoop_find:
  assumes "pathname req = Some url"
  shows "controllersLoop env jwtSecret req (splitOn (CHR ''/'') url) cs =
     (case find (\<lambda>(c, r). routeMatches req (splitOn (CHR ''/'') url) c r) (allRoutes cs) of
        None \<Rightarrow> ioReturn False
      | Some (c, r) \<Rightarrow> serve env jwtSecret req (splitOn (CHR ''/'') url) c r)"
proof (induction cs)
  case Nil
  then show ?case by (simp add: allRoutes_def)
next
  case (Cons c cs)
  have fnd: "find (\<lambda>(c, r). P c r) (map (Pair c) rs @ rest) =
        (case find (P c) rs of None \<Rightarrow> find (\<lambda>(c, r). P c r) rest | Some r \<Rightarrow> Some (c, r))" for P rs rest
    by (induction rs) auto
  show ?case
  proof (cases "find (routeMatches req (splitOn (CHR ''/'') url) c) (routes c)")
    case None
    then show ?thesis
      using Cons.IH fnd[of "routeMatches req (splitOn (CHR ''/'') url)" "routes c"]
      by (simp add: allRoutes_def routesLoop_find[OF assms] ioBind_def ioReturn_def fun_eq_iff)
  next
    case (Some r)
    then have m: "routeMatches req (splitOn (CHR ''/'') url) c r"
      by (auto simp: find_Some_iff)
    then obtain ps where ps: "matchRoute (fullPathOf c r) url = Some ps"
      by (auto simp: routeMatches_matchRoute)
    have "ioBind (serve env jwtSecret req (splitOn (CHR ''/'') url) c r)
            (\<lambda>returned. if returned then ioReturn True
                         else controllersLoop env jwtSecret req (splitOn (CHR ''/'') url) cs) w
          = serve env jwtSecret req (splitOn (CHR ''/'') url) c r w" for w
      using serve_matched_returns[OF assms ps, of env jwtSecret w]
      by (auto simp: ioBind_def ioReturn_def split: prod.splits sum.splits)
    then show ?thesis
      using Some fnd[of "routeMatches req (splitOn (CHR ''/'') url)" "routes c"]
      by (simp add: allRoutes_def routesLoop_find[OF assms] fun_eq_iff)
  qed
qed

lemma firstMatch_props:
  assumes "firstMatch req cs = Some (c, r)"
  shows "\<exists>url ps. pathname req = Some url
           \<and> map_option toLowerCase (reqMethod req) = Some (methodString (requestMethod r))
           \<and> matchRoute (fullPathOf c r) url = Some ps"
proof -
  from assms obtain url where url: "pathname req = Some url"
    by (auto simp: firstMatch_def split: option.splits)
  with assms have "routeMatches req (splitOn (CHR ''/'') url) c r"
    by (auto simp: firstMatch_def find_Some_iff)
  then show ?thesis using url by (auto simp: routeMatches_matchRoute)
qed

text \<open>
  \<^verbatim>\<open>handleRequest\<close> for a request whose first passing route is \<open>r\<close> of controller \<open>c\<close>, and
  for a request that no route passes.
\<close>

lemma handleRequest_dispatch:
  assumes "firstMatch req cs = Some (c, r)" and "pathname req = Some url"
  shows "handleRequest env jwtSecret cs req =
     ioCatch (ioBind (serve env jwtSecret req (splitOn (CHR ''/'') url) c r) (\<lambda>returned. ioReturn ()))
             (\<lambda>error. internalServerError)"
proof -
  from assms have f: "find (\<lambda>(c, r). routeMatches req (splitOn (CHR ''/'') url) c r) (allRoutes cs) = Some (c, r)"
    by (simp add: firstMatch_def)
  then have "routeMatches req (splitOn (CHR ''/'') url) c r" by (auto simp: find_Some_iff)
  then obtain ps where ps: "matchRoute (fullPathOf c r) url = Some ps"
    by (auto simp: routeMatches_matchRoute)
  have "ioBind (serve env jwtSecret req (splitOn (CHR ''/'') url) c r)
          (\<lambda>returned. if returned then ioReturn () else notFound) w
        = ioBind (serve env jwtSecret req (splitOn (CHR ''/'') url) c r) (\<lambda>returned. ioReturn ()) w" for w
    using serve_matched_returns[OF assms(2) ps, of env jwtSecret w]
    by (auto simp: ioBind_def ioReturn_def split: prod.splits sum.splits)
  then have "ioBind (serve env jwtSecret req (splitOn (CHR ''/'') url) c r)
          (\<lambda>returned. if returned then ioReturn () else notFound)
        = ioBind (serve env jwtSecret req (splitOn (CHR ''/'') url) c r) (\<lambda>returned. ioReturn ())"
    by (rule ext)
  then show ?thesis
    unfolding handleRequest_def by (simp add: assms(2) controllersLoop_find[OF assms(2)] f)
qed

lemma handleRequest_no_route:
  assumes "firstMatch req cs = None" and "pathname req = Some url"
  shows "handleRequest env jwtSecret cs req = ioCatch notFound (\<lambda>error. internalServerError)"
proof -
  from assms have f: "find (\<lambda>(c, r). routeMatches req (splitOn (CHR ''/'') url) c r) (allRoutes cs) = None"
    by (simp add: firstMatch_def)
  show ?thesis
    unfolding handleRequest_def
    by (simp add: assms(2) controllersLoop_find[OF assms(2)] f ioBind_def ioReturn_def)
qed

lemma ioCatch_throw: "ioCatch (ioThrow e) h = h e"
  by (simp add: ioCatch_def ioThrow_def)

lemma ioCatch_return: "ioCatch (ioReturn x) h = ioReturn x"
  by (simp add: ioCatch_def ioReturn_def)

text \<open>The three error responses, on a response that has not been sent.\<close>

lemma unauthorized_fresh:
  \<open>writes w = [] \<Longrightarrow>
   unauthorized w =
     (Inr (), w\<lparr>statusCode := 401,
                resHeaders := upsert ''Content-Type'' ''application/json'' (resHeaders w),
                writes := [(401, upsert ''Content-Type'' ''application/json'' (resHeaders w),
                            ''{"error":"Unauthorized"}'')]\<rparr>)\<close>
  by (simp add: unauthorized_def ioThen_def ioBind_def setStatus_def setHeader_def resEnd_def)

lemma notFound_fresh:
  \<open>writes w = [] \<Longrightarrow>
   notFound w =
     (Inr (), w\<lparr>statusCode := 404,
                resHeaders := upsert ''Content-Type'' ''application/json'' (resHeaders w),
                writes := [(404, upsert ''Content-Type'' ''application/json'' (resHeaders w),
                            ''{"error":"Not found"}'')]\<rparr>)\<close>
  by (simp add: notFound_def ioThen_def ioBind_def setStatus_def setHeader_def resEnd_def)

lemma internalServerError_fresh:
  \<open>writes w = [] \<Longrightarrow>
   internalServerError w =
     (Inr (), w\<lparr>statusCode := 500,
                resHeaders := upsert ''Content-Type'' ''application/json'' (resHeaders w),
                writes := [(500, upsert ''Content-Type'' ''application/json'' (resHeaders w),
                            ''{"error":"Internal Server Error"}'')]\<rparr>)\<close>
  by (simp add: internalServerError_def ioThen_def ioBind_def setStatus_def setHeader_def resEnd_def)

lemma map_of_upsert: "map_of (upsert k v hs) k' = (if k' = k then Some v else map_of hs k')"
  by (induction hs) auto

text \<open>
  What \<^verbatim>\<open>respond\<close> leaves behind on a response that has not been sent: either it
  returns and exactly one response has been sent, with the status code it found, or it
  throws and nothing has been sent. Its events are cache reads, cache writes and
  invocations of the route's own method.
\<close>

lemma respond_outcome:
  assumes "writes w = []" and "respond env c r fullPath params w = (res, w')"
  shows "statusCode w' = statusCode w
       \<and> (\<exists>evs. events w' = events w @ evs \<and> list_all (ownEvent c r) evs)
       \<and> (case res of
             Inr u \<Rightarrow> (\<exists>hs b. writes w' = [(statusCode w, hs, b)]
                             \<and> map_of hs ''Content-Type'' = Some ''application/json'')
           | Inl e \<Rightarrow> writes w' = [])"
  using assms
  unfolding respond_def Let_def cacheGet_def cacheSet_def invoke_def ioBind_def ioThen_def
    setHeader_def resEnd_def
  by (auto simp: ownEvent_def map_of_upsert split: if_splits sum.splits prod.splits option.splits)

text \<open>
  The JWT logic on a response that has not been sent: it never throws, it touches neither
  the store nor the events, and either it hands the parameters on and the response is as
  before, or it has sent one 401 or one 500.
\<close>

lemma authenticate_outcome:
  assumes "writes w = []" and "authenticate env jwtSecret c r req params w = (res, w')"
  shows \<open>events w' = events w \<and> store w' = store w
       \<and> (case res of
             Inl e \<Rightarrow> False
           | Inr (Some params') \<Rightarrow> w' = w
           | Inr None \<Rightarrow>
               (\<exists>st hs b. writes w' = [(st, hs, b)] \<and> statusCode w' = st
                  \<and> map_of hs ''Content-Type'' = Some ''application/json''
                  \<and> (st = 401 \<and> b = ''{"error":"Unauthorized"}''
                      \<or> st = 500 \<and> b = ''{"error":"Internal Server Error"}'')))\<close>
  using assms
  unfolding authenticate_def ioCatch_def ioThen_def ioBind_def ioReturn_def ioThrow_def
  by (auto simp: unauthorized_fresh internalServerError_fresh map_of_upsert
           split: if_splits sum.splits prod.splits option.splits)

text \<open>
  A route that passed the test, on a response that has not been sent: \<^verbatim>\<open>serve\<close> returns
  with exactly one response sent, or throws with nothing sent and the status code
  untouched.
\<close>

lemma serve_outcome:
  assumes "pathname req = Some url"
    and "matchRoute (fullPathOf c r) url = Some ps"
    and "writes w = []"
    and "serve env jwtSecret req (splitOn (CHR ''/'') url) c r w = (res, w')"
  shows \<open>(\<exists>evs. events w' = events w @ evs \<and> list_all (ownEvent c r) evs)
       \<and> (case res of
             Inl e \<Rightarrow> writes w' = [] \<and> statusCode w' = statusCode w
           | Inr returned \<Rightarrow>
               (\<exists>st hs b. writes w' = [(st, hs, b)] \<and> statusCode w' = st
                  \<and> map_of hs ''Content-Type'' = Some ''application/json''
                  \<and> (st = statusCode w
                      \<or> st = 401 \<and> b = ''{"error":"Unauthorized"}''
                      \<or> st = 500 \<and> b = ''{"error":"Internal Server Error"}'')))\<close>
proof -
  let ?bodyStep = "if map_option toLowerCase (reqMethod req) \<noteq> Some ''get''
                      \<and> map_of (headers req) ''content-type'' = Some ''application/json''
                   then getJsonBody env req else ioReturn (JObj [])"
  have bodyStep: "(\<exists>e. ?bodyStep w = (Inl e, w)) \<or> (\<exists>bdy. ?bodyStep w = (Inr bdy, w))"
    by (auto simp: getJsonBody_def ioReturn_def ioThrow_def split: bodyStream.splits option.splits)
  then show ?thesis
  proof
    assume "\<exists>e. ?bodyStep w = (Inl e, w)"
    then obtain e where "?bodyStep w = (Inl e, w)" ..
    then have "serve env jwtSecret req (splitOn (CHR ''/'') url) c r w = (Inl e, w)"
      unfolding serve_matched[OF assms(1,2)] by (simp add: ioBind_def)
    with assms(3,4) show ?thesis by auto
  next
    assume "\<exists>bdy. ?bodyStep w = (Inr bdy, w)"
    then obtain bdy where b: "?bodyStep w = (Inr bdy, w)" ..
    let ?params = "[(''body'', bdy), (''params'', JObj ps), (''headers'', headersObj req), (''query'', query req)]"
    obtain ares wa where a: "authenticate env jwtSecret c r req ?params w = (ares, wa)"
      by (cases "authenticate env jwtSecret c r req ?params w")
    note ao = authenticate_outcome[OF assms(3) a]
    have s: "serve env jwtSecret req (splitOn (CHR ''/'') url) c r w =
        (case ares of
           Inl e \<Rightarrow> (Inl e, wa)
         | Inr None \<Rightarrow> (Inr True, wa)
         | Inr (Some params') \<Rightarrow> ioThen (respond env c r (fullPathOf c r) params') (ioReturn True) wa)"
      unfolding serve_matched[OF assms(1,2)] using a b
      by (simp add: ioBind_def ioReturn_def split: sum.splits option.splits)
    show ?thesis
    proof (cases ares)
      case (Inl e)
      with ao show ?thesis by simp
    next
      case (Inr opt)
      show ?thesis
      proof (cases opt)
        case None
        with Inr ao s assms(4) show ?thesis by auto
      next
        case (Some params')
        with Inr ao have wa: "wa = w" by simp
        obtain rres wr where rr: "respond env c r (fullPathOf c r) params' w = (rres, wr)"
          by (cases "respond env c r (fullPathOf c r) params' w")
        note ro = respond_outcome[OF assms(3) rr]
        have "serve env jwtSecret req (splitOn (CHR ''/'') url) c r w =
                (case rres of Inl e \<Rightarrow> (Inl e, wr) | Inr u \<Rightarrow> (Inr True, wr))"
          using s Inr Some wa rr
          by (simp add: ioThen_def ioBind_def ioReturn_def split: sum.splits)
        with assms(4) ro show ?thesis by (cases rres) auto
      qed
    qed
  qed
qed

lemma authenticate_routes_irrelevant:
  "authenticate env jwtSecret (c\<lparr>routes := rs\<rparr>) r req params = authenticate env jwtSecret c r req params"
  by (simp add: authenticate_def cong: if_cong option.case_cong)

lemma respond_routes_irrelevant:
  "respond env (c\<lparr>routes := rs\<rparr>) r fullPath params = respond env c r fullPath params"
  by (simp add: respond_def invoke_def Let_def cong: if_cong)

lemma serve_routes_irrelevant:
  "serve env jwtSecret req segs (c\<lparr>routes := rs\<rparr>) r = serve env jwtSecret req segs c r"
  unfolding serve_def authenticate_routes_irrelevant respond_routes_irrelevant fullPathOf_def
  by simp

lemma find_filter_Cons: "filter P xs = x # ys \<Longrightarrow> find P xs = Some x"
  by (induction xs) (auto split: if_splits)

lemma handleRequest_events:
  assumes "firstMatch req cs = Some (c, r)" and "writes w = []"
  shows "\<exists>evs. events (snd (handleRequest env jwtSecret cs req w)) = events w @ evs
               \<and> list_all (ownEvent c r) evs"
proof -
  from firstMatch_props[OF assms(1)] obtain url ps where
    url: "pathname req = Some url" and ps: "matchRoute (fullPathOf c r) url = Some ps"
    by blast
  obtain res ws where s: "serve env jwtSecret req (splitOn (CHR ''/'') url) c r w = (res, ws)"
    by (cases "serve env jwtSecret req (splitOn (CHR ''/'') url) c r w")
  note so = serve_outcome[OF url ps assms(2) s]
  note hd = handleRequest_dispatch[OF assms(1) url, of env jwtSecret]
  show ?thesis
  proof (cases res)
    case (Inl e)
    with so have ws: "writes ws = []" by simp
    have "handleRequest env jwtSecret cs req w = internalServerError ws"
      unfolding hd using s Inl by (simp add: ioCatch_def ioBind_def)
    then have "events (snd (handleRequest env jwtSecret cs req w)) = events ws"
      by (simp add: internalServerError_fresh[OF ws])
    with so show ?thesis by simp
  next
    case (Inr returned)
    have "handleRequest env jwtSecret cs req w = (Inr (), ws)"
      unfolding hd using s Inr by (simp add: ioCatch_def ioBind_def ioReturn_def)
    with so show ?thesis by simp
  qed
qed

text \<open>
  \<^verbatim>\<open>extractParams\<close> changes nothing in the world; when it returns, its result is the
  four-property object.
\<close>

lemma extractParams_result:
  assumes "extractParams env req pth w = (Inr params0, w')"
  shows "w' = w
       \<and> (\<exists>bdy pathParams.
            params0 = [(''body'', bdy), (''params'', pathParams),
                       (''headers'', headersObj req), (''query'', query req)]
          \<and> (\<forall>url. pathname req = Some url \<longrightarrow>
                pathParams = (case matchRoute pth url of None \<Rightarrow> JNull | Some ps \<Rightarrow> JObj ps)))"
  using assms
  unfolding extractParams_def getJsonBody_def ioBind_def ioReturn_def ioThrow_def
  by (auto split: option.splits if_splits bodyStream.splits)

text \<open>
  A request whose parameters were extracted and that the JWT logic let through reaches
  \<^verbatim>\<open>respond\<close> (lines 106 to 128) with the parameters the JWT logic returned.
\<close>

lemma serve_admitted:
  assumes "pathname req = Some url"
    and "matchRoute (fullPathOf c r) url = Some ps"
    and "extractParams env req (fullPathOf c r) w = (Inr params0, w)"
    and "authenticate env jwtSecret c r req params0 w = (Inr (Some params), w)"
  shows "serve env jwtSecret req (splitOn (CHR ''/'') url) c r w
           = ioThen (respond env c r (fullPathOf c r) params) (ioReturn True) w"
proof -
  let ?bodyStep = "if map_option toLowerCase (reqMethod req) \<noteq> Some ''get''
                      \<and> map_of (headers req) ''content-type'' = Some ''application/json''
                   then getJsonBody env req else ioReturn (JObj [])"
  have ex: "extractParams env req (fullPathOf c r) =
        ioBind ?bodyStep (\<lambda>bdy. ioReturn [(''body'', bdy), (''params'', JObj ps),
                                            (''headers'', headersObj req), (''query'', query req)])"
    by (simp add: extractParams_def assms(1,2))
  obtain bres wb where b: "?bodyStep w = (bres, wb)" by (cases "?bodyStep w")
  with assms(3) obtain bdy where bdy: "bres = Inr bdy" "wb = w"
    and p0: "params0 = [(''body'', bdy), (''params'', JObj ps), (''headers'', headersObj req), (''query'', query req)]"
    unfolding ex by (auto simp: ioBind_def ioReturn_def split: sum.splits)
  show ?thesis
    unfolding serve_matched[OF assms(1,2)]
    using b bdy assms(4) p0 by (simp add: ioBind_def)
qed

lemma handleRequest_admitted:
  assumes "firstMatch req cs = Some (c, r)"
    and "extractParams env req (fullPathOf c r) w = (Inr params0, w)"
    and "authenticate env jwtSecret c r req params0 w = (Inr (Some params), w)"
  shows "handleRequest env jwtSecret cs req w
           = ioCatch (respond env c r (fullPathOf c r) params) (\<lambda>error. internalServerError) w"
proof -
  from firstMatch_props[OF assms(1)] obtain url ps where
    url: "pathname req = Some url" and ps: "matchRoute (fullPathOf c r) url = Some ps"
    by blast
  show ?thesis
    unfolding handleRequest_dispatch[OF assms(1) url]
    by (simp add: ioCatch_def ioBind_def ioThen_def ioReturn_def serve_admitted[OF url ps assms(2,3)]
             split: prod.splits sum.splits)
qed

text \<open>A request that stops in the JWT logic: the response is the one the JWT logic sent.\<close>

lemma handleRequest_rejected:
  assumes "firstMatch req cs = Some (c, r)"
    and "extractParams env req (fullPathOf c r) w = (Inr params0, w)"
    and "authenticate env jwtSecret c r req params0 w = (Inr None, w')"
  shows "handleRequest env jwtSecret cs req w = (Inr (), w')"
proof -
  from firstMatch_props[OF assms(1)] obtain url ps where
    url: "pathname req = Some url" and ps: "matchRoute (fullPathOf c r) url = Some ps"
    by blast
  let ?bodyStep = "if map_option toLowerCase (reqMethod req) \<noteq> Some ''get''
                      \<and> map_of (headers req) ''content-type'' = Some ''application/json''
                   then getJsonBody env req else ioReturn (JObj [])"
  have ex: "extractParams env req (fullPathOf c r) =
        ioBind ?bodyStep (\<lambda>bdy. ioReturn [(''body'', bdy), (''params'', JObj ps),
                                            (''headers'', headersObj req), (''query'', query req)])"
    by (simp add: extractParams_def url ps)
  obtain bres wb where b: "?bodyStep w = (bres, wb)" by (cases "?bodyStep w")
  with assms(2) obtain bdy where bdy: "bres = Inr bdy" "wb = w"
    and p0: "params0 = [(''body'', bdy), (''params'', JObj ps), (''headers'', headersObj req), (''query'', query req)]"
    unfolding ex by (auto simp: ioBind_def ioReturn_def split: sum.splits)
  have "serve env jwtSecret req (splitOn (CHR ''/'') url) c r w = (Inr True, w')"
    unfolding serve_matched[OF url ps]
    using b bdy assms(3) p0 by (simp add: ioBind_def ioReturn_def)
  then show ?thesis
    unfolding handleRequest_dispatch[OF assms(1) url]
    by (simp add: ioCatch_def ioBind_def ioReturn_def)
qed

text \<open>The paths through \<^verbatim>\<open>respond\<close> for a cached method, on a response that has not been sent.\<close>

lemma respond_hit:
  assumes "methodName r \<in> set (cachedMethods c)"
    and "redisGet env (store w) (cacheKeyOf env fullPath params) = Inr (Some v)"
    and "v \<noteq> []"
    and "writes w = []"
  shows "respond env c r fullPath params w =
     (Inr (), w\<lparr>resHeaders :=
                  upsert ''Content-Type'' ''application/json''
                    (upsert ''Cache-Control''
                       (''public, max-age='' @ templateNum (map_of (cacheTtl c) (methodName r)))
                       (upsert ''X-Cache'' ''HIT'' (resHeaders w))),
                writes :=
                  [(statusCode w,
                    upsert ''Content-Type'' ''application/json''
                      (upsert ''Cache-Control''
                         (''public, max-age='' @ templateNum (map_of (cacheTtl c) (methodName r)))
                         (upsert ''X-Cache'' ''HIT'' (resHeaders w))),
                    v)],
                events := events w @ [CacheGet (cacheKeyOf env fullPath params)]\<rparr>)"
  using assms
  by (simp add: respond_def Let_def cacheGet_def ioBind_def ioThen_def setHeader_def resEnd_def endArg_def)

lemma respond_get_fails:
  assumes "methodName r \<in> set (cachedMethods c)"
    and "redisGet env (store w) (cacheKeyOf env fullPath params) = Inl e"
  shows "respond env c r fullPath params w =
     (Inl e, w\<lparr>events := events w @ [CacheGet (cacheKeyOf env fullPath params)]\<rparr>)"
  using assms
  by (simp add: respond_def Let_def cacheGet_def ioBind_def)

lemma respond_set_fails:
  assumes "methodName r \<in> set (cachedMethods c)"
    and "redisGet env (store w) (cacheKeyOf env fullPath params) = Inr cachedResult"
    and "cachedResult = None \<or> cachedResult = Some []"
    and "handler env (ctrlName c) (methodName r) (objectValues params) = Inr result"
    and "redisSet env (store w) (cacheKeyOf env fullPath params) (jsonStringify env result)
           (map_of (cacheTtl c) (methodName r)) = Inl e"
  shows "respond env c r fullPath params w =
     (Inl e, w\<lparr>events := events w @
                  [CacheGet (cacheKeyOf env fullPath params),
                   Invoked (ctrlName c) (methodName r) (objectValues params),
                   CacheSet (cacheKeyOf env fullPath params) (jsonStringify env result)
                     (map_of (cacheTtl c) (methodName r))]\<rparr>)"
  using assms
  by (auto simp: respond_def Let_def cacheGet_def cacheSet_def invoke_def ioBind_def ioThen_def)

lemma respond_miss:
  assumes "methodName r \<in> set (cachedMethods c)"
    and "redisGet env (store w) (cacheKeyOf env fullPath params) = Inr cachedResult"
    and "cachedResult = None \<or> cachedResult = Some []"
    and "handler env (ctrlName c) (methodName r) (objectValues params) = Inr result"
    and "redisSet env (store w) (cacheKeyOf env fullPath params) (jsonStringify env result)
           (map_of (cacheTtl c) (methodName r)) = Inr s'"
    and "writes w = []"
  shows "respond env c r fullPath params w =
     (Inr (), w\<lparr>resHeaders := upsert ''Content-Type'' ''application/json'' (resHeaders w),
                writes := [(statusCode w, upsert ''Content-Type'' ''application/json'' (resHeaders w),
                            endArg (jsonStringify env result))],
                store := s',
                events := events w @
                  [CacheGet (cacheKeyOf env fullPath params),
                   Invoked (ctrlName c) (methodName r) (objectValues params),
                   CacheSet (cacheKeyOf env fullPath params) (jsonStringify env result)
                     (map_of (cacheTtl c) (methodName r))]\<rparr>)"
  using assms
  by (auto simp: respond_def Let_def cacheGet_def cacheSet_def invoke_def ioBind_def ioThen_def
                 setHeader_def resEnd_def)

lemma respond_uncached:
  assumes "methodName r \<notin> set (cachedMethods c)"
    and "handler env (ctrlName c) (methodName r) (objectValues params) = Inr result"
    and "writes w = []"
  shows "respond env c r fullPath params w =
     (Inr (), w\<lparr>resHeaders := upsert ''Content-Type'' ''application/json'' (resHeaders w),
                writes := [(statusCode w, upsert ''Content-Type'' ''application/json'' (resHeaders w),
                            endArg (jsonStringify env result))],
                events := events w @ [Invoked (ctrlName c) (methodName r) (objectValues params)]\<rparr>)"
  using assms
  by (auto simp: respond_def Let_def invoke_def ioBind_def ioThen_def setHeader_def resEnd_def)

text \<open>The outcomes of the JWT logic for a method with auth metadata, on a response that has not been sent.\<close>

lemma authenticate_no_bearer:
  assumes "map_of (auth c) (methodName r) = Some authParams"
    and "case map_of (headers req) ''authorization'' of
           None \<Rightarrow> True
         | Some bearerHeader \<Rightarrow> \<not> startsWith bearerHeader ''Bearer ''"
    and "writes w = []"
  shows \<open>authenticate env jwtSecret c r req params w
           = (Inr None, answered 401 ''{"error":"Unauthorized"}'' w)\<close>
  using assms
  by (auto simp: authenticate_def ioThen_def ioBind_def ioReturn_def unauthorized_fresh answered_def
           split: option.splits)

lemma authenticate_no_secret:
  assumes "map_of (auth c) (methodName r) = Some authParams"
    and "map_of (headers req) ''authorization'' = Some bearerHeader"
    and "startsWith bearerHeader ''Bearer ''"
    and "jwtSecret = None \<or> jwtSecret = Some []"
    and "writes w = []"
  shows \<open>authenticate env jwtSecret c r req params w
           = (Inr None, answered 500 ''{"error":"Internal Server Error"}'' w)\<close>
proof -
  have "bearerHeader \<noteq> []" using assms(3) by (auto simp: startsWith_def)
  then show ?thesis
    using assms
    by (auto simp: authenticate_def ioCatch_def ioThen_def ioBind_def ioReturn_def
                   internalServerError_fresh answered_def)
qed

lemma authenticate_bad_token:
  assumes "map_of (auth c) (methodName r) = Some authParams"
    and "map_of (headers req) ''authorization'' = Some bearerHeader"
    and "startsWith bearerHeader ''Bearer ''"
    and "jwtSecret = Some secret" and "secret \<noteq> []"
    and "case bearerToken bearerHeader of
           None \<Rightarrow> True
         | Some token \<Rightarrow> verify env token secret True = None"
    and "writes w = []"
  shows \<open>authenticate env jwtSecret c r req params w
           = (Inr None, answered 401 ''{"error":"Unauthorized"}'' w)\<close>
proof -
  have "bearerHeader \<noteq> []" using assms(3) by (auto simp: startsWith_def)
  then show ?thesis
    using assms
    by (auto simp: authenticate_def ioCatch_def ioThen_def ioBind_def ioReturn_def ioThrow_def
                   unauthorized_fresh answered_def
             split: option.splits)
qed


text \<open>
  \<^verbatim>\<open>handleRequest\<close> for a request whose first passing route is \<open>r\<close> of \<open>c\<close>, stage by
  stage: extract the parameters, run the JWT logic, respond; whatever is thrown ends in
  \<^verbatim>\<open>internalServerError\<close>.
\<close>

lemma handleRequest_stages:
  assumes "firstMatch req cs = Some (c, r)"
  shows "handleRequest env jwtSecret cs req =
     ioCatch
       (ioBind (extractParams env req (fullPathOf c r)) (\<lambda>params0.
          ioBind (authenticate env jwtSecret c r req params0) (\<lambda>a.
            case a of
              None \<Rightarrow> ioReturn ()
            | Some params \<Rightarrow> respond env c r (fullPathOf c r) params)))
       (\<lambda>error. internalServerError)"
proof -
  from firstMatch_props[OF assms] obtain url ps where
    url: "pathname req = Some url" and ps: "matchRoute (fullPathOf c r) url = Some ps"
    by blast
  have "(case a of None \<Rightarrow> ioReturn True
         | Some params' \<Rightarrow> ioThen (respond env c r (fullPathOf c r) params') (ioReturn True)) w
        = ioBind (case a of None \<Rightarrow> ioReturn ()
                  | Some params \<Rightarrow> respond env c r (fullPathOf c r) params) (\<lambda>u. ioReturn True) w"
    for a and w :: "'a world"
    by (cases a) (simp_all add: ioThen_def ioBind_return_left)
  then have k: "(\<lambda>a. case a of None \<Rightarrow> ioReturn True
         | Some params' \<Rightarrow> ioThen (respond env c r (fullPathOf c r) params') (ioReturn True))
        = (\<lambda>a. ioBind (case a of None \<Rightarrow> ioReturn ()
                        | Some params \<Rightarrow> respond env c r (fullPathOf c r) params) (\<lambda>u. ioReturn True))"
    by (intro ext)
  have r: "ioBind m (\<lambda>x. ioReturn x) = m" for m :: "('a, unit) io"
    by (rule ext) (simp add: ioBind_def ioReturn_def split: prod.splits sum.splits)
  show ?thesis
    unfolding handleRequest_dispatch[OF assms url] serve_matched[OF url ps] k
    by (simp add: extractParams_def url ps ioBind_assoc ioBind_return_left r)
qed

lemma extractParams_cases:
  "(\<exists>e. extractParams env req pth w = (Inl e, w)) \<or> (\<exists>params0. extractParams env req pth w = (Inr params0, w))"
  unfolding extractParams_def getJsonBody_def ioBind_def ioReturn_def ioThrow_def
  by (auto split: option.splits bodyStream.splits)

text \<open>Every invocation \<^verbatim>\<open>respond\<close> makes passes \<^verbatim>\<open>Object.values(params)\<close>.\<close>

lemma respond_invocations:
  assumes "respond env c r fullPath params w = (res, w')"
  shows "\<exists>evs. events w' = events w @ evs
           \<and> (\<forall>cn mn args. Invoked cn mn args \<in> set evs \<longrightarrow> args = objectValues params)"
  using assms
  unfolding respond_def Let_def cacheGet_def cacheSet_def invoke_def ioBind_def ioThen_def
    setHeader_def resEnd_def
  by (auto split: if_splits sum.splits prod.splits option.splits)

text \<open>When the JWT logic hands parameters on for a method with auth metadata, a token was verified.\<close>

lemma authenticate_Some_verified:
  assumes "authenticate env jwtSecret c r req params0 w = (Inr (Some params), w')"
    and "map_of (auth c) (methodName r) = Some authParams"
  shows "\<exists>bearerHeader token secret claims.
           map_of (headers req) ''authorization'' = Some bearerHeader
         \<and> startsWith bearerHeader ''Bearer ''
         \<and> bearerToken bearerHeader = Some token
         \<and> jwtSecret = Some secret \<and> secret \<noteq> []
         \<and> verify env token secret True = Some claims
         \<and> params = bindAuth claims authParams params0"
  using assms
  unfolding authenticate_def ioCatch_def ioThen_def ioBind_def ioReturn_def ioThrow_def
  by (auto split: option.splits if_splits prod.splits sum.splits)

lemma authenticate_world:
  assumes "authenticate env jwtSecret c r req params0 w = (Inr (Some params), w')"
  shows "w' = w"
  using assms
  unfolding authenticate_def ioCatch_def ioThen_def ioBind_def ioReturn_def ioThrow_def
  by (auto split: option.splits if_splits prod.splits sum.splits)

text \<open>The events of a request: those of \<^verbatim>\<open>respond\<close>, if it is reached.\<close>

lemma handleRequest_invocations:
  assumes "firstMatch req cs = Some (c, r)" and "writes w = []"
    and "events (snd (handleRequest env jwtSecret cs req w)) = events w @ evs"
    and "Invoked cn mn args \<in> set evs"
  shows "\<exists>params0 params.
           extractParams env req (fullPathOf c r) w = (Inr params0, w)
         \<and> authenticate env jwtSecret c r req params0 w = (Inr (Some params), w)
         \<and> args = objectValues params"
proof -
  note st = handleRequest_stages[OF assms(1), of env jwtSecret]
  from extractParams_cases[of env req "fullPathOf c r" w] show ?thesis
  proof
    assume "\<exists>e. extractParams env req (fullPathOf c r) w = (Inl e, w)"
    then obtain e where "extractParams env req (fullPathOf c r) w = (Inl e, w)" ..
    then have "handleRequest env jwtSecret cs req w = internalServerError w"
      unfolding st by (simp add: ioCatch_def ioBind_def)
    then have "events (snd (handleRequest env jwtSecret cs req w)) = events w"
      by (simp add: internalServerError_fresh[OF assms(2)])
    with assms(3,4) show ?thesis by simp
  next
    assume "\<exists>params0. extractParams env req (fullPathOf c r) w = (Inr params0, w)"
    then obtain params0 where ex: "extractParams env req (fullPathOf c r) w = (Inr params0, w)" ..
    obtain ares wa where a: "authenticate env jwtSecret c r req params0 w = (ares, wa)"
      by (cases "authenticate env jwtSecret c r req params0 w")
    note ao = authenticate_outcome[OF assms(2) a]
    show ?thesis
    proof (cases ares)
      case (Inl e)
      with ao show ?thesis by simp
    next
      case (Inr opt)
      show ?thesis
      proof (cases opt)
        case None
        have "handleRequest env jwtSecret cs req w = (Inr (), wa)"
          unfolding st using ex a Inr None by (simp add: ioCatch_def ioBind_def ioReturn_def)
        then have "events (snd (handleRequest env jwtSecret cs req w)) = events w"
          using ao by simp
        with assms(3,4) show ?thesis by simp
      next
        case (Some params)
        with Inr ao have wa: "wa = w" by simp
        obtain rres wr where rr: "respond env c r (fullPathOf c r) params w = (rres, wr)"
          by (cases "respond env c r (fullPathOf c r) params w")
        from respond_invocations[OF rr] obtain revs where
          revs: "events wr = events w @ revs"
            "\<forall>cn mn args. Invoked cn mn args \<in> set revs \<longrightarrow> args = objectValues params"
          by blast
        note ro = respond_outcome[OF assms(2) rr]
        have "events (snd (handleRequest env jwtSecret cs req w)) = events wr"
        proof (cases rres)
          case (Inl e)
          with ro have wrw: "writes wr = []" by simp
          have "handleRequest env jwtSecret cs req w = internalServerError wr"
            unfolding st using ex a Inr Some wa rr Inl by (simp add: ioCatch_def ioBind_def)
          then show ?thesis by (simp add: internalServerError_fresh[OF wrw])
        next
          case (Inr u)
          have "handleRequest env jwtSecret cs req w = (Inr (), wr)"
            unfolding st using ex a \<open>ares = Inr opt\<close> Some wa rr Inr
            by (simp add: ioCatch_def ioBind_def)
          then show ?thesis by simp
        qed
        with assms(3) revs(1) have "evs = revs" by simp
        with assms(4) revs(2) have "args = objectValues params" by blast
        with ex a Inr Some wa show ?thesis by simp
      qed
    qed
  qed
qed

text \<open>
  An index key set on an object that has only named keys goes in front: this is where
  \<^verbatim>\<open>params[param.index] = ...\<close> puts the claim among \<^verbatim>\<open>Object.values(params)\<close>.
\<close>

lemma objSet_index_front:
  assumes "isArrayIndex k" and "\<forall>k' \<in> fst ` set ob. \<not> isArrayIndex k'"
  shows "objSet k v ob = (k, v) # ob"
proof -
  have "k \<notin> fst ` set ob" using assms by blast
  then have "map_of ob k = None" by (simp add: map_of_eq_None_iff)
  moreover have "takeWhile (\<lambda>(k', v'). isArrayIndex k' \<and> decimal k' < decimal k) ob = []"
    using assms(2) by (cases ob) auto
  moreover have "dropWhile (\<lambda>(k', v'). isArrayIndex k' \<and> decimal k' < decimal k) ob = ob"
    using assms(2) by (cases ob) auto
  moreover have "k \<noteq> ''__proto__''" using assms(1) by (auto simp: isArrayIndex_def isDigit_def)
  ultimately show ?thesis using assms(1) by (simp add: objSet_def)
qed

lemma bindAuth_sub_second:
  "bindAuth claims [(1, ''sub'')] [(''body'', b), (''params'', p), (''headers'', h), (''query'', q)]
     = [(''1'', objGet claims ''sub''), (''body'', b), (''params'', p), (''headers'', h), (''query'', q)]"
proof -
  have 1: "showNat 1 = ''1''" by (simp add: showNat.simps)
  have 2: "isArrayIndex ''1''" by (simp add: isArrayIndex_def isDigit_def decimal_def)
  have 3: "\<forall>k' \<in> fst ` set [(''body'', b), (''params'', p), (''headers'', h), (''query'', q)]. \<not> isArrayIndex k'"
    by (simp add: isArrayIndex_def isDigit_def)
  have "bindAuth claims [(1, ''sub'')] [(''body'', b), (''params'', p), (''headers'', h), (''query'', q)]
      = objSet (showNat 1) (objGet claims ''sub'')
          [(''body'', b), (''params'', p), (''headers'', h), (''query'', q)]"
    by (simp add: bindAuth_def del: One_nat_def)
  then show ?thesis
    by (simp only: 1 objSet_index_front[OF 2 3])
qed




text \<open>The key of an auth parameter is made of digits, so it is never \<^verbatim>\<open>params\<close>.\<close>

lemma showNat_digits: "showNat n \<noteq> [] \<and> set (showNat n) \<subseteq> set ''0123456789''"
proof (induction n rule: showNat.induct)
  case (1 n)
  have d: "''0123456789'' ! k \<in> set ''0123456789''" if "k < 10" for k
    using that by (intro nth_mem) simp
  show ?case
  proof (cases "n < 10")
    case True
    then show ?thesis using d[of n] by (subst (1 2) showNat.simps) simp
  next
    case False
    have "n mod 10 < 10" by simp
    from d[OF this] 1[OF False] False show ?thesis
      by (subst (1 2) showNat.simps) simp
  qed
qed

lemma showNat_not_params: "showNat n \<noteq> ''params''"
proof
  assume "showNat n = ''params''"
  then have "CHR ''p'' \<in> set (showNat n)" by simp
  with showNat_digits[of n] show False by auto
qed

lemma bindAuth_keeps_params: "objGet (bindAuth claims authParams params) ''params'' = objGet params ''params''"
proof -
  have "map_of (fold (\<lambda>(idx, nm) acc.
             objSet (showNat idx)
               (if nm = ''__allAuthParams'' then JObj claims else objGet claims nm) acc)
          authParams params) ''params'' = map_of params ''params''"
  proof (induction authParams arbitrary: params)
    case Nil
    then show ?case by simp
  next
    case (Cons a authParams)
    obtain idx nm where a: "a = (idx, nm)" by (cases a)
    show ?case
      using Cons.IH showNat_not_params[of idx]
      by (simp add: a map_of_objSet)
  qed
  then show ?thesis by (simp add: bindAuth_def objGet_def)
qed

lemma authenticate_keeps_params:
  assumes "authenticate env jwtSecret c r req params0 w = (Inr (Some params), w')"
  shows "objGet params ''params'' = objGet params0 ''params''"
proof (cases "map_of (auth c) (methodName r)")
  case None
  with assms show ?thesis by (simp add: authenticate_def ioReturn_def)
next
  case (Some authParams)
  from authenticate_Some_verified[OF assms Some] show ?thesis
    by (auto simp: bindAuth_keeps_params)
qed

text \<open>
  The cache key of a request that reaches \<^verbatim>\<open>respond\<close> is made from the full path of the
  route and what \<^verbatim>\<open>matchRoute\<close> returned for the path of the request: nothing else of
  the request enters it.
\<close>

lemma cacheKey_of_path:
  assumes "pathname req = Some url"
    and "extractParams env req (fullPathOf c r) w = (Inr params0, w)"
    and "authenticate env jwtSecret c r req params0 w = (Inr (Some params), w)"
  shows "cacheKeyOf env (fullPathOf c r) params
           = fullPathOf c r @ '':'' @
             template (jsonStringify env
               (case matchRoute (fullPathOf c r) url of None \<Rightarrow> JNull | Some ps \<Rightarrow> JObj ps))"
proof -
  from extractParams_result[OF assms(2)] assms(1)
  have "objGet params0 ''params''
          = (case matchRoute (fullPathOf c r) url of None \<Rightarrow> JNull | Some ps \<Rightarrow> JObj ps)"
    by (auto simp: objGet_def)
  then show ?thesis
    by (simp add: cacheKeyOf_def authenticate_keeps_params[OF assms(3)])
qed

lemma firstMatch_same_path:
  assumes "pathname req2 = pathname req1" and "reqMethod req2 = reqMethod req1"
  shows "firstMatch req2 cs = firstMatch req1 cs"
proof -
  have "routeMatches req2 segs c r = routeMatches req1 segs c r" for segs c r
    by (simp add: routeMatches_def assms(2))
  then have "(\<lambda>(c, r). routeMatches req2 segs c r) = (\<lambda>(c, r). routeMatches req1 segs c r)" for segs
    by (intro ext) auto
  then show ?thesis by (simp add: firstMatch_def assms(1) cong: option.case_cong)
qed

section \<open>The arguments of the handler\<close>

text \<open>
  Claim C1 says that a route whose bindings are the whole body, then the \<^verbatim>\<open>sub\<close> claim
  (auth metadata \<^verbatim>\<open>[{index: 1, name: "sub"}]\<close>) has its operation called with exactly two
  arguments, the parsed body and the value of \<^verbatim>\<open>sub\<close>. As stated it fails:
  \<^verbatim>\<open>handleRequest\<close> reads no binding metadata but \<^verbatim>\<open>auth\<close> and calls every operation with
  \<^verbatim>\<open>...Object.values(params)\<close>, that is with the body, the path parameters, the headers and
  the query, to which the JWT logic has added the claim under the key \<^verbatim>\<open>1\<close>. For
  \<^verbatim>\<open>POST /api/orders\<close> with the body \<^verbatim>\<open>{"qty":3}\<close> and a valid token for \<^verbatim>\<open>alice\<close> the
  operation receives five arguments.
\<close>

theorem handler_arguments_counterexample:
  \<open>map_of (auth ctrlApi) (methodName routeOrders) = Some [(1, ''sub'')]
   \<and> events (snd (handleRequest exEnv (Some ''s3cret'') exControllers
        (postRequest ''/api/orders''
           [(''content-type'', ''application/json''), (''authorization'', ''Bearer valid'')]
           [''{"qty"'', '':3}''])
        (freshWorld [])))
       = [Invoked ''ApiController'' ''createOrder''
            [JStr ''alice'',
             JObj [(''qty'', JNum 3)],
             JObj [],
             JObj [(''content-type'', JStr ''application/json''),
                   (''authorization'', JStr ''Bearer valid'')],
             JObj []]]
   \<and> [JStr ''alice'', JObj [(''qty'', JNum 3)], JObj [],
        JObj [(''content-type'', JStr ''application/json''),
              (''authorization'', JStr ''Bearer valid'')],
        JObj []]
       \<noteq> [JObj [(''qty'', JNum 3)], JStr ''alice'']\<close>
  by code_simp

text \<open>
  Claim C1, amended. For every route whose auth metadata is \<^verbatim>\<open>[{index: 1, name: "sub"}]\<close>
  and every request that reaches handler invocation on that route, the operation is called
  with five positional arguments: the four values \<^verbatim>\<open>extractParams\<close> returned, which are the
  parsed body, the path parameters, the headers and the query, in this order, and the value
  of the \<^verbatim>\<open>sub\<close> claim of the verified token. Where among the four the claim stands is not
  part of the statement. The number of arguments does not depend on how many path
  parameters, headers or query values the request carries.
\<close>

theorem handler_arguments:
  assumes "firstMatch req cs = Some (c, r)"
    and "map_of (auth c) (methodName r) = Some [(1, ''sub'')]"
    and "writes w = []"
    and "events (snd (handleRequest env jwtSecret cs req w)) = events w @ evs"
    and "Invoked cn mn args \<in> set evs"
  shows "\<exists>bdy pathParams bearerHeader token secret claims.
           extractParams env req (fullPathOf c r) w
             = (Inr [(''body'', bdy), (''params'', pathParams),
                     (''headers'', headersObj req), (''query'', query req)], w)
         \<and> map_of (headers req) ''authorization'' = Some bearerHeader
         \<and> bearerToken bearerHeader = Some token
         \<and> jwtSecret = Some secret
         \<and> verify env token secret True = Some claims
         \<and> (\<exists>xs ys. args = xs @ [objGet claims ''sub''] @ ys
                    \<and> xs @ ys = [bdy, pathParams, headersObj req, query req])"
proof -
  from handleRequest_invocations[OF assms(1,3,4,5)] obtain params0 params where
    ex: "extractParams env req (fullPathOf c r) w = (Inr params0, w)"
    and au: "authenticate env jwtSecret c r req params0 w = (Inr (Some params), w)"
    and args: "args = objectValues params"
    by blast
  from extractParams_result[OF ex] obtain bdy pathParams where
    p0: "params0 = [(''body'', bdy), (''params'', pathParams),
                    (''headers'', headersObj req), (''query'', query req)]"
    by blast
  from authenticate_Some_verified[OF au assms(2)] obtain bearerHeader token secret claims where
    v: "map_of (headers req) ''authorization'' = Some bearerHeader"
       "bearerToken bearerHeader = Some token"
       "jwtSecret = Some secret"
       "verify env token secret True = Some claims"
    and p: "params = bindAuth claims [(1, ''sub'')] params0"
    by blast
  have "args = [] @ [objGet claims ''sub''] @ [bdy, pathParams, headersObj req, query req]"
    unfolding args p p0 bindAuth_sub_second objectValues_def by simp
  then have "\<exists>xs ys. args = xs @ [objGet claims ''sub''] @ ys
                  \<and> xs @ ys = [bdy, pathParams, headersObj req, query req]"
    by (intro exI[of _ "[]"] exI[of _ "[bdy, pathParams, headersObj req, query req]"]) simp
  with ex p0 v show ?thesis by blast
qed

text \<open>
  The same route with the expired token of \<^verbatim>\<open>bob\<close>, a path without captures, two
  headers and no query: five arguments.
\<close>

theorem handler_arguments_witness:
  \<open>\<exists>bdy pathParams bearerHeader token secret claims.
      extractParams exEnv
          (postRequest ''/api/orders''
             [(''content-type'', ''application/json''), (''authorization'', ''Bearer expired'')]
             [''{"qty":3}''])
          (fullPathOf ctrlApi routeOrders) (freshWorld [])
        = (Inr [(''body'', bdy), (''params'', pathParams),
                (''headers'', headersObj
                   (postRequest ''/api/orders''
                      [(''content-type'', ''application/json''), (''authorization'', ''Bearer expired'')]
                      [''{"qty":3}''])),
                (''query'', query
                   (postRequest ''/api/orders''
                      [(''content-type'', ''application/json''), (''authorization'', ''Bearer expired'')]
                      [''{"qty":3}'']))],
           freshWorld [])
    \<and> map_of (headers
          (postRequest ''/api/orders''
             [(''content-type'', ''application/json''), (''authorization'', ''Bearer expired'')]
             [''{"qty":3}''])) ''authorization'' = Some bearerHeader
    \<and> bearerToken bearerHeader = Some token
    \<and> Some ''s3cret'' = Some secret
    \<and> verify exEnv token secret True = Some claims
    \<and> (\<exists>xs ys.
          [JStr ''bob'', JObj [(''qty'', JNum 3)], JObj [],
           JObj [(''content-type'', JStr ''application/json''),
                 (''authorization'', JStr ''Bearer expired'')],
           JObj []]
            = xs @ [objGet claims ''sub''] @ ys
        \<and> xs @ ys
            = [bdy, pathParams,
               headersObj
                 (postRequest ''/api/orders''
                    [(''content-type'', ''application/json''), (''authorization'', ''Bearer expired'')]
                    [''{"qty":3}'']),
               query
                 (postRequest ''/api/orders''
                    [(''content-type'', ''application/json''), (''authorization'', ''Bearer expired'')]
                    [''{"qty":3}''])])\<close>
proof -
  let ?req = \<open>postRequest ''/api/orders''
             [(''content-type'', ''application/json''), (''authorization'', ''Bearer expired'')]
             [''{"qty":3}'']\<close>
  let ?w = "freshWorld ([] :: (string \<times> string) list)"
  let ?args = "[JStr ''bob'', JObj [(''qty'', JNum 3)], JObj [],
           JObj [(''content-type'', JStr ''application/json''),
                 (''authorization'', JStr ''Bearer expired'')],
           JObj []]"
  have 1: "firstMatch ?req exControllers = Some (ctrlApi, routeOrders)" by code_simp
  have 2: "map_of (auth ctrlApi) (methodName routeOrders) = Some [(1, ''sub'')]" by code_simp
  have 3: "writes ?w = []" by code_simp
  have 4: "events (snd (handleRequest exEnv (Some ''s3cret'') exControllers ?req ?w))
             = events ?w @ [Invoked ''ApiController'' ''createOrder'' ?args]"
    by code_simp
  have 5: "Invoked ''ApiController'' ''createOrder'' ?args
             \<in> set [Invoked ''ApiController'' ''createOrder'' ?args]"
    by simp
  show ?thesis
    by (rule handler_arguments[OF 1 2 3 4 5])
qed

section \<open>Failures of the cache store\<close>

text \<open>
  Claim C2 says that a failure of the cache store is never surfaced: a failed read is
  treated as a miss, and after a failed write the computed result is still sent with
  status 200. As stated it fails: nothing in \<^verbatim>\<open>handleRequest\<close> catches a rejection of
  \<^verbatim>\<open>redis.get\<close> or \<^verbatim>\<open>redis.set\<close> on its own, so it reaches the \<^verbatim>\<open>catch\<close> of the whole body and
  the request is answered 500. For \<^verbatim>\<open>GET /api/report\<close> with a store whose reads fail, the
  handler is not invoked; with a store whose writes fail, the handler has run and its
  result is dropped.
\<close>

theorem cache_failure_counterexample:
  \<open>handleRequest exEnvGetDown None exControllers (getRequest ''/api/report'' []) (freshWorld [])
     = (Inr (), \<lparr>statusCode = 500,
                 resHeaders = [(''Content-Type'', ''application/json'')],
                 writes = [(500, [(''Content-Type'', ''application/json'')],
                            ''{"error":"Internal Server Error"}'')],
                 store = [],
                 events = [CacheGet ''/api/report:{}'']\<rparr>)
   \<and> handleRequest exEnvSetDown None exControllers (getRequest ''/api/report'' []) (freshWorld [])
     = (Inr (), \<lparr>statusCode = 500,
                 resHeaders = [(''Content-Type'', ''application/json'')],
                 writes = [(500, [(''Content-Type'', ''application/json'')],
                            ''{"error":"Internal Server Error"}'')],
                 store = [],
                 events = [CacheGet ''/api/report:{}'',
                           Invoked ''ApiController'' ''report'' [JObj [], JObj [], JObj [], JObj []],
                           CacheSet ''/api/report:{}'' (Some ''{"handledBy":"report"}'') (Some (Rendered ''60''))]\<rparr>)\<close>
  by code_simp

text \<open>
  Claim C2, amended. For every request to a cacheable route that has passed parameter
  extraction and the JWT logic, a failure of the cache store is caught at the boundary of
  the dispatcher and answered with status 500 and the body
  \<^verbatim>\<open>{"error":"Internal Server Error"}\<close>, as one response, and no exception leaves
  \<^verbatim>\<open>handleRequest\<close>. If the read fails, it is not treated as a miss: the handler is not
  invoked and nothing is written. If the read finds nothing (or an empty string), the
  handler returns a result and the write fails, the result is not sent, and the store is
  as it was.
\<close>

theorem cache_failure_answered_500:
  assumes "firstMatch req cs = Some (c, r)"
    and "extractParams env req (fullPathOf c r) w = (Inr params0, w)"
    and "authenticate env jwtSecret c r req params0 w = (Inr (Some params), w)"
    and "methodName r \<in> set (cachedMethods c)"
    and "writes w = []"
  shows \<open>(\<forall>e. redisGet env (store w) (cacheKeyOf env (fullPathOf c r) params) = Inl e
            \<longrightarrow> handleRequest env jwtSecret cs req w
                  = (Inr (), answered 500 ''{"error":"Internal Server Error"}''
                       (w\<lparr>events := events w @ [CacheGet (cacheKeyOf env (fullPathOf c r) params)]\<rparr>)))
       \<and> (\<forall>cachedResult result e.
             redisGet env (store w) (cacheKeyOf env (fullPathOf c r) params) = Inr cachedResult
             \<and> (cachedResult = None \<or> cachedResult = Some [])
             \<and> handler env (ctrlName c) (methodName r) (objectValues params) = Inr result
             \<and> redisSet env (store w) (cacheKeyOf env (fullPathOf c r) params)
                  (jsonStringify env result) (map_of (cacheTtl c) (methodName r)) = Inl e
            \<longrightarrow> handleRequest env jwtSecret cs req w
                  = (Inr (), answered 500 ''{"error":"Internal Server Error"}''
                       (w\<lparr>events := events w @
                            [CacheGet (cacheKeyOf env (fullPathOf c r) params),
                             Invoked (ctrlName c) (methodName r) (objectValues params),
                             CacheSet (cacheKeyOf env (fullPathOf c r) params)
                               (jsonStringify env result)
                               (map_of (cacheTtl c) (methodName r))]\<rparr>)))\<close>
proof (intro conjI allI impI)
  fix e
  assume g: "redisGet env (store w) (cacheKeyOf env (fullPathOf c r) params) = Inl e"
  let ?w' = "w\<lparr>events := events w @ [CacheGet (cacheKeyOf env (fullPathOf c r) params)]\<rparr>"
  have fresh: "writes ?w' = []" using assms(5) by simp
  show \<open>handleRequest env jwtSecret cs req w
          = (Inr (), answered 500 ''{"error":"Internal Server Error"}'' ?w')\<close>
    unfolding handleRequest_admitted[OF assms(1,2,3)]
    by (simp add: ioCatch_def respond_get_fails[OF assms(4) g]
                  internalServerError_fresh[OF fresh] answered_def)
next
  fix cachedResult result e
  assume h: "redisGet env (store w) (cacheKeyOf env (fullPathOf c r) params) = Inr cachedResult
             \<and> (cachedResult = None \<or> cachedResult = Some [])
             \<and> handler env (ctrlName c) (methodName r) (objectValues params) = Inr result
             \<and> redisSet env (store w) (cacheKeyOf env (fullPathOf c r) params)
                  (jsonStringify env result) (map_of (cacheTtl c) (methodName r)) = Inl e"
  let ?w' = "w\<lparr>events := events w @
                [CacheGet (cacheKeyOf env (fullPathOf c r) params),
                 Invoked (ctrlName c) (methodName r) (objectValues params),
                 CacheSet (cacheKeyOf env (fullPathOf c r) params)
                   (jsonStringify env result) (map_of (cacheTtl c) (methodName r))]\<rparr>"
  have fresh: "writes ?w' = []" using assms(5) by simp
  from h have h1: "redisGet env (store w) (cacheKeyOf env (fullPathOf c r) params) = Inr cachedResult"
    and h2: "cachedResult = None \<or> cachedResult = Some []"
    and h3: "handler env (ctrlName c) (methodName r) (objectValues params) = Inr result"
    and h4: "redisSet env (store w) (cacheKeyOf env (fullPathOf c r) params)
                  (jsonStringify env result) (map_of (cacheTtl c) (methodName r)) = Inl e"
    by blast+
  have r: "respond env c r (fullPathOf c r) params w = (Inl e, ?w')"
    by (rule respond_set_fails[OF assms(4) h1 h2 h3 h4])
  show \<open>handleRequest env jwtSecret cs req w
          = (Inr (), answered 500 ''{"error":"Internal Server Error"}'' ?w')\<close>
    unfolding handleRequest_admitted[OF assms(1,2,3)]
    by (simp add: ioCatch_def r internalServerError_fresh[OF fresh] answered_def)
qed

text \<open>
  \<^verbatim>\<open>GET /api/report\<close> with a store that accepts reads and rejects writes: the handler's
  result is computed and the answer is 500.
\<close>

theorem cache_failure_answered_500_witness:
  \<open>handleRequest exEnvSetDown None exControllers (getRequest ''/api/report'' []) (freshWorld [])
     = (Inr (), answered 500 ''{"error":"Internal Server Error"}''
          ((freshWorld [])\<lparr>events :=
             [CacheGet ''/api/report:{}'',
              Invoked ''ApiController'' ''report'' [JObj [], JObj [], JObj [], JObj []],
              CacheSet ''/api/report:{}'' (Some ''{"handledBy":"report"}'') (Some (Rendered ''60''))]\<rparr>))\<close>
proof -
  let ?req = "getRequest ''/api/report'' []"
  let ?w = "freshWorld ([] :: (string \<times> string) list)"
  let ?p = "[(''body'', JObj []), (''params'', JObj []), (''headers'', JObj []), (''query'', JObj [])]"
  have 1: "firstMatch ?req exControllers = Some (ctrlApi, routeReport)" by code_simp
  have 2: "extractParams exEnvSetDown ?req (fullPathOf ctrlApi routeReport) ?w = (Inr ?p, ?w)"
    by code_simp
  have 3: "authenticate exEnvSetDown None ctrlApi routeReport ?req ?p ?w = (Inr (Some ?p), ?w)"
    by code_simp
  have 4: "methodName routeReport \<in> set (cachedMethods ctrlApi)" by code_simp
  have 5: "writes ?w = []" by code_simp
  have 6: \<open>redisGet exEnvSetDown (store ?w) (cacheKeyOf exEnvSetDown (fullPathOf ctrlApi routeReport) ?p)
             = Inr None
         \<and> ((None :: string option) = None \<or> (None :: string option) = Some [])
         \<and> handler exEnvSetDown (ctrlName ctrlApi) (methodName routeReport) (objectValues ?p)
             = Inr (JObj [(''handledBy'', JStr ''report'')])
         \<and> redisSet exEnvSetDown (store ?w) (cacheKeyOf exEnvSetDown (fullPathOf ctrlApi routeReport) ?p)
              (jsonStringify exEnvSetDown (JObj [(''handledBy'', JStr ''report'')]))
              (map_of (cacheTtl ctrlApi) (methodName routeReport))
             = Inl (External ''ECONNREFUSED'')\<close>
    by code_simp
  have k: \<open>answered 500 ''{"error":"Internal Server Error"}''
        (?w\<lparr>events := events ?w @
            [CacheGet (cacheKeyOf exEnvSetDown (fullPathOf ctrlApi routeReport) ?p),
             Invoked (ctrlName ctrlApi) (methodName routeReport) (objectValues ?p),
             CacheSet (cacheKeyOf exEnvSetDown (fullPathOf ctrlApi routeReport) ?p)
               (jsonStringify exEnvSetDown (JObj [(''handledBy'', JStr ''report'')]))
               (map_of (cacheTtl ctrlApi) (methodName routeReport))]\<rparr>)
      = answered 500 ''{"error":"Internal Server Error"}''
          (?w\<lparr>events :=
             [CacheGet ''/api/report:{}'',
              Invoked ''ApiController'' ''report'' [JObj [], JObj [], JObj [], JObj []],
              CacheSet ''/api/report:{}'' (Some ''{"handledBy":"report"}'') (Some (Rendered ''60''))]\<rparr>)\<close>
    by code_simp
  from cache_failure_answered_500[OF 1 2 3 4 5, THEN conjunct2, rule_format, OF 6]
  show ?thesis unfolding k .
qed

section \<open>The path matcher\<close>

text \<open>
  Claim C3 says that \<^verbatim>\<open>matchRoute\<close> returns a match exactly when the pattern and the path
  have the same number of segments and every literal segment is equal, and that the value
  of every capture segment is recorded in the match under the capture's name. The second
  half fails on two kinds of pattern. The match is a plain object, on which an assignment
  under the name \<^verbatim>\<open>__proto__\<close> creates no property: \<^verbatim>\<open>/:__proto__\<close> matches \<^verbatim>\<open>/x\<close> and the
  match is empty. And each name is one property: \<^verbatim>\<open>/:id/:id\<close> matches \<^verbatim>\<open>/a/b\<close> with
  \<^verbatim>\<open>b\<close> under \<^verbatim>\<open>id\<close>, and the segment \<^verbatim>\<open>a\<close> is recorded nowhere.
\<close>

theorem matchRoute_capture_counterexample:
  "matchRoute ''/:__proto__'' ''/x'' = Some []
   \<and> matchRoute ''/:id/:id'' ''/a/b'' = Some [(''id'', JStr ''b'')]"
  by code_simp

text \<open>
  Claim C3, amended. For every route pattern and every request path, \<^verbatim>\<open>matchRoute\<close> returns
  a match if and only if the pattern and the path, split on \<^verbatim>\<open>/\<close>, have the same number of
  segments and every segment of the pattern that does not start with \<^verbatim>\<open>:\<close> is equal to the
  segment of the path at its place (equality of strings, so upper and lower case differ).
  A capture segment accepts any segment. The match has the capture's name as a property
  holding that segment, unless the name is \<^verbatim>\<open>__proto__\<close> or a later capture of the pattern
  has the same name; it has no property \<^verbatim>\<open>__proto__\<close> and no property of a name that no
  capture has.
\<close>

theorem matchRoute_exact:
  assumes "routeParts = splitOn (CHR ''/'') rt" and "urlParts = splitOn (CHR ''/'') url"
  shows "((\<exists>params. matchRoute rt url = Some params) \<longleftrightarrow>
            length routeParts = length urlParts
            \<and> (\<forall>i<length routeParts.
                  \<not> startsWith (routeParts ! i) '':'' \<longrightarrow> routeParts ! i = urlParts ! i))
       \<and> (\<forall>params i.
            matchRoute rt url = Some params \<and> i < length routeParts
            \<and> startsWith (routeParts ! i) '':''
            \<and> slice1 (routeParts ! i) \<noteq> ''__proto__''
            \<and> (\<forall>j. i < j \<and> j < length routeParts \<and> startsWith (routeParts ! j) '':''
                     \<longrightarrow> slice1 (routeParts ! j) \<noteq> slice1 (routeParts ! i))
            \<longrightarrow> map_of params (slice1 (routeParts ! i)) = Some (JStr (urlParts ! i)))
       \<and> (\<forall>params k.
            matchRoute rt url = Some params
            \<and> (k = ''__proto__''
                \<or> (\<forall>j<length routeParts. startsWith (routeParts ! j) '':'' \<longrightarrow> slice1 (routeParts ! j) \<noteq> k))
            \<longrightarrow> map_of params k = None)"
proof (intro conjI allI impI)
  show "(\<exists>params. matchRoute rt url = Some params) \<longleftrightarrow>
          length routeParts = length urlParts
          \<and> (\<forall>i<length routeParts.
                \<not> startsWith (routeParts ! i) '':'' \<longrightarrow> routeParts ! i = urlParts ! i)"
    unfolding assms by (rule matchRoute_Some_iff)
next
  fix params i
  assume h: "matchRoute rt url = Some params \<and> i < length routeParts
            \<and> startsWith (routeParts ! i) '':''
            \<and> slice1 (routeParts ! i) \<noteq> ''__proto__''
            \<and> (\<forall>j. i < j \<and> j < length routeParts \<and> startsWith (routeParts ! j) '':''
                     \<longrightarrow> slice1 (routeParts ! j) \<noteq> slice1 (routeParts ! i))"
  then have len: "length routeParts = length urlParts"
    and ml: "matchLoop routeParts urlParts [] = Some params"
    unfolding assms by (auto simp: matchRoute_def Let_def split: if_splits)
  show "map_of params (slice1 (routeParts ! i)) = Some (JStr (urlParts ! i))"
    by (rule matchLoop_params[OF len ml, THEN conjunct1, rule_format]) (use h in simp_all)
next
  fix params k
  assume h: "matchRoute rt url = Some params
            \<and> (k = ''__proto__''
                \<or> (\<forall>j<length routeParts. startsWith (routeParts ! j) '':'' \<longrightarrow> slice1 (routeParts ! j) \<noteq> k))"
  then have len: "length routeParts = length urlParts"
    and ml: "matchLoop routeParts urlParts [] = Some params"
    unfolding assms by (auto simp: matchRoute_def Let_def split: if_splits)
  have "map_of params k = map_of [] k"
    by (rule matchLoop_params[OF len ml, THEN conjunct2, rule_format]) (use h in blast)
  then show "map_of params k = None"
    by simp
qed

text \<open>
  \<^verbatim>\<open>/users/:id\<close> matches \<^verbatim>\<open>/users/42\<close> with \<^verbatim>\<open>42\<close> under \<^verbatim>\<open>id\<close> and nothing under \<^verbatim>\<open>users\<close>;
  \<^verbatim>\<open>/users/new\<close> does not match \<^verbatim>\<open>/users/New\<close>; the match of \<^verbatim>\<open>/:id/:id\<close> on \<^verbatim>\<open>/a/b\<close> has
  \<^verbatim>\<open>b\<close> under \<^verbatim>\<open>id\<close>; the match of \<^verbatim>\<open>/:__proto__\<close> on \<^verbatim>\<open>/x\<close> has no property
  \<^verbatim>\<open>__proto__\<close>.
\<close>

theorem matchRoute_exact_witness:
  "(\<exists>params. matchRoute ''/users/:id'' ''/users/42'' = Some params
       \<and> map_of params ''id'' = Some (JStr ''42'') \<and> map_of params ''users'' = None)
   \<and> matchRoute ''/users/new'' ''/users/New'' = None
   \<and> (\<exists>params. matchRoute ''/:id/:id'' ''/a/b'' = Some params
         \<and> map_of params ''id'' = Some (JStr ''b''))
   \<and> (\<exists>params. matchRoute ''/:__proto__'' ''/x'' = Some params
         \<and> map_of params ''__proto__'' = None)"
proof -
  have r: "['''', ''users'', '':id''] = splitOn (CHR ''/'') ''/users/:id''" by simp
  have u: "['''', ''users'', ''42''] = splitOn (CHR ''/'') ''/users/42''" by simp
  have r2: "['''', ''users'', ''new''] = splitOn (CHR ''/'') ''/users/new''" by simp
  have u2: "['''', ''users'', ''New''] = splitOn (CHR ''/'') ''/users/New''" by simp
  have r3: "['''', '':id'', '':id''] = splitOn (CHR ''/'') ''/:id/:id''" by simp
  have u3: "['''', ''a'', ''b''] = splitOn (CHR ''/'') ''/a/b''" by simp
  have r4: "['''', '':__proto__''] = splitOn (CHR ''/'') ''/:__proto__''" by simp
  have u4: "['''', ''x''] = splitOn (CHR ''/'') ''/x''" by simp
  note A = matchRoute_exact[OF r u]
  note B = matchRoute_exact[OF r2 u2, THEN conjunct1]
  note C = matchRoute_exact[OF r3 u3]
  note D = matchRoute_exact[OF r4 u4]
  have "\<exists>params. matchRoute ''/users/:id'' ''/users/42'' = Some params"
    using A[THEN conjunct1] by (simp add: All_less_Suc startsWith_def)
  then obtain params where p: "matchRoute ''/users/:id'' ''/users/42'' = Some params" ..
  have 2: "map_of params ''id'' = Some (JStr ''42'')"
    using A[THEN conjunct2, THEN conjunct1, rule_format, of params 2] p
    by (simp add: startsWith_def slice1_def)
  have 3: "map_of params ''users'' = None"
    using A[THEN conjunct2, THEN conjunct2, rule_format, of params "''users''"] p
    by (simp add: All_less_Suc startsWith_def slice1_def)
  have 4: "matchRoute ''/users/new'' ''/users/New'' = None"
    using B by (simp add: All_less_Suc startsWith_def)
  have "\<exists>params. matchRoute ''/:id/:id'' ''/a/b'' = Some params"
    using C[THEN conjunct1] by (simp add: All_less_Suc startsWith_def)
  then obtain params3 where p3: "matchRoute ''/:id/:id'' ''/a/b'' = Some params3" ..
  have 5: "map_of params3 ''id'' = Some (JStr ''b'')"
    using C[THEN conjunct2, THEN conjunct1, rule_format, of params3 2] p3
    by (simp add: startsWith_def slice1_def)
  have "\<exists>params. matchRoute ''/:__proto__'' ''/x'' = Some params"
    using D[THEN conjunct1] by (simp add: All_less_Suc startsWith_def)
  then obtain params4 where p4: "matchRoute ''/:__proto__'' ''/x'' = Some params4" ..
  have 6: "map_of params4 ''__proto__'' = None"
    using D[THEN conjunct2, THEN conjunct2, rule_format, of params4 "''__proto__''"] p4
    by simp
  show ?thesis using p 2 3 4 p3 5 p4 6 by blast
qed

section \<open>Route precedence\<close>

text \<open>
  Claim C4. When the routes that pass the test for a request (the method compared after
  lower-casing the request's, the path pattern matched segment by segment) are, in
  registration order, the route \<open>r\<close> of controller \<open>c\<close> followed by any others, the dispatcher
  answers as if \<open>r\<close> were the only route registered, and the only handler invocations it
  makes are of \<open>r\<close>'s method on \<open>c\<close>. With \<^verbatim>\<open>GET /a/:x\<close> registered before \<^verbatim>\<open>GET /a/b\<close>, the
  request \<^verbatim>\<open>GET /a/b\<close> invokes the first route's method with \<^verbatim>\<open>x = "b"\<close> and never the
  second's.
\<close>

theorem first_registered_route_wins:
  assumes "pathname req = Some url"
    and "filter (\<lambda>(c, r). routeMatches req (splitOn (CHR ''/'') url) c r) (allRoutes cs)
           = (c, r) # others"
  shows "handleRequest env jwtSecret cs req w = handleRequest env jwtSecret [c\<lparr>routes := [r]\<rparr>] req w
       \<and> (writes w = [] \<longrightarrow>
            (\<exists>evs. events (snd (handleRequest env jwtSecret cs req w)) = events w @ evs
                   \<and> list_all (ownEvent c r) evs))"
proof -
  from assms have fm: "firstMatch req cs = Some (c, r)"
    by (simp add: firstMatch_def find_filter_Cons)
  have "(c, r) \<in> set (filter (\<lambda>(c, r). routeMatches req (splitOn (CHR ''/'') url) c r) (allRoutes cs))"
    using assms(2) by simp
  then have m: "routeMatches req (splitOn (CHR ''/'') url) c r" by simp
  then have m': "routeMatches req (splitOn (CHR ''/'') url) (c\<lparr>routes := [r]\<rparr>) r"
    by (simp add: routeMatches_def fullPathOf_def)
  have fm': "firstMatch req [c\<lparr>routes := [r]\<rparr>] = Some (c\<lparr>routes := [r]\<rparr>, r)"
    using m' assms(1) by (simp add: firstMatch_def allRoutes_def)
  have "handleRequest env jwtSecret cs req = handleRequest env jwtSecret [c\<lparr>routes := [r]\<rparr>] req"
    by (simp add: handleRequest_dispatch[OF fm assms(1)] handleRequest_dispatch[OF fm' assms(1)]
                  serve_routes_irrelevant)
  then have same: "handleRequest env jwtSecret cs req w
                     = handleRequest env jwtSecret [c\<lparr>routes := [r]\<rparr>] req w"
    by (rule fun_cong)
  show ?thesis
  proof (intro conjI impI)
    show "handleRequest env jwtSecret cs req w
            = handleRequest env jwtSecret [c\<lparr>routes := [r]\<rparr>] req w"
      by (rule same)
  next
    assume "writes w = []"
    then show "\<exists>evs. events (snd (handleRequest env jwtSecret cs req w)) = events w @ evs
                   \<and> list_all (ownEvent c r) evs"
      by (rule handleRequest_events[OF fm])
  qed
qed

theorem first_registered_route_wins_witness:
  "handleRequest exEnv None exControllers (getRequest ''/a/b'' []) (freshWorld [])
     = handleRequest exEnv None [ctrlA\<lparr>routes := [routeAX]\<rparr>] (getRequest ''/a/b'' []) (freshWorld [])
   \<and> events (snd (handleRequest exEnv None exControllers (getRequest ''/a/b'' []) (freshWorld [])))
     = [Invoked ''AController'' ''byParam'' [JObj [], JObj [(''x'', JStr ''b'')], JObj [], JObj []]]"
proof -
  let ?req = "getRequest ''/a/b'' []"
  have 1: "pathname ?req = Some ''/a/b''" by code_simp
  have 2: "filter (\<lambda>(c, r). routeMatches ?req (splitOn (CHR ''/'') ''/a/b'') c r) (allRoutes exControllers)
             = (ctrlA, routeAX) # [(ctrlA, routeAB)]" by code_simp
  have 3: "events (snd (handleRequest exEnv None [ctrlA\<lparr>routes := [routeAX]\<rparr>] ?req (freshWorld [])))
     = [Invoked ''AController'' ''byParam'' [JObj [], JObj [(''x'', JStr ''b'')], JObj [], JObj []]]"
    by code_simp
  from first_registered_route_wins[OF 1 2, of exEnv None "freshWorld []"]
  have "handleRequest exEnv None exControllers ?req (freshWorld [])
      = handleRequest exEnv None [ctrlA\<lparr>routes := [routeAX]\<rparr>] ?req (freshWorld [])"
    by (rule conjunct1)
  with 3 show ?thesis by simp
qed

section \<open>Authentication failures\<close>

text \<open>
  Claim C5 says that every request dispatched to a route with an auth parameter is
  answered 401 when the \<^verbatim>\<open>Authorization\<close> header is absent or does not start with
  \<^verbatim>\<open>Bearer \<close>, 500 when no secret is configured, 401 when verification fails, without
  touching the cache or the handler. As stated it fails: \<^verbatim>\<open>extractParams\<close> runs before
  the JWT logic, so a request whose JSON body cannot be parsed is answered 500 whatever
  its \<^verbatim>\<open>Authorization\<close> header is. Here the header is \<^verbatim>\<open>Basic abc\<close> and a secret is
  configured, so the claim promises 401.
\<close>

theorem auth_failure_counterexample:
  \<open>firstMatch (postRequest ''/api/orders''
                 [(''content-type'', ''application/json''), (''authorization'', ''Basic abc'')]
                 [''not json''])
       exControllers = Some (ctrlApi, routeOrders)
   \<and> map_of (auth ctrlApi) (methodName routeOrders) = Some [(1, ''sub'')]
   \<and> \<not> startsWith ''Basic abc'' ''Bearer ''
   \<and> handleRequest exEnv (Some ''s3cret'') exControllers
        (postRequest ''/api/orders''
           [(''content-type'', ''application/json''), (''authorization'', ''Basic abc'')]
           [''not json''])
        (freshWorld [])
       = (Inr (), \<lparr>statusCode = 500,
                   resHeaders = [(''Content-Type'', ''application/json'')],
                   writes = [(500, [(''Content-Type'', ''application/json'')],
                              ''{"error":"Internal Server Error"}'')],
                   store = [], events = []\<rparr>)\<close>
  by code_simp

text \<open>
  Claim C5, amended. For every request dispatched to a route with an auth parameter whose
  parameters were extracted without error (there was no JSON body to read, or it parsed):
  if the \<^verbatim>\<open>Authorization\<close> header is absent or does not start with \<^verbatim>\<open>Bearer \<close>, the response
  is 401; otherwise, if no secret is configured (it is undefined or empty), the response
  is 500; otherwise, if verification of the token fails, the response is 401. In the
  three cases the world differs from the one before only in the response: no cache read,
  no cache write and no handler invocation has happened, and the store is unchanged.
\<close>

theorem auth_failures:
  assumes "firstMatch req cs = Some (c, r)"
    and "map_of (auth c) (methodName r) = Some authParams"
    and "extractParams env req (fullPathOf c r) w = (Inr params0, w)"
    and "writes w = []"
  shows \<open>((case map_of (headers req) ''authorization'' of
             None \<Rightarrow> True
           | Some bearerHeader \<Rightarrow> \<not> startsWith bearerHeader ''Bearer '')
          \<longrightarrow> handleRequest env jwtSecret cs req w
                = (Inr (), answered 401 ''{"error":"Unauthorized"}'' w))
       \<and> ((\<exists>bearerHeader. map_of (headers req) ''authorization'' = Some bearerHeader
              \<and> startsWith bearerHeader ''Bearer '')
           \<and> (jwtSecret = None \<or> jwtSecret = Some [])
          \<longrightarrow> handleRequest env jwtSecret cs req w
                = (Inr (), answered 500 ''{"error":"Internal Server Error"}'' w))
       \<and> ((\<exists>bearerHeader secret. map_of (headers req) ''authorization'' = Some bearerHeader
              \<and> startsWith bearerHeader ''Bearer ''
              \<and> jwtSecret = Some secret \<and> secret \<noteq> []
              \<and> (case bearerToken bearerHeader of
                    None \<Rightarrow> True
                  | Some token \<Rightarrow> verify env token secret True = None))
          \<longrightarrow> handleRequest env jwtSecret cs req w
                = (Inr (), answered 401 ''{"error":"Unauthorized"}'' w))\<close>
proof (intro conjI impI)
  assume "case map_of (headers req) ''authorization'' of
             None \<Rightarrow> True
           | Some bearerHeader \<Rightarrow> \<not> startsWith bearerHeader ''Bearer ''"
  from authenticate_no_bearer[OF assms(2) this assms(4)]
  show \<open>handleRequest env jwtSecret cs req w = (Inr (), answered 401 ''{"error":"Unauthorized"}'' w)\<close>
    by (rule handleRequest_rejected[OF assms(1,3)])
next
  assume "(\<exists>bearerHeader. map_of (headers req) ''authorization'' = Some bearerHeader
              \<and> startsWith bearerHeader ''Bearer '')
           \<and> (jwtSecret = None \<or> jwtSecret = Some [])"
  then obtain bearerHeader where h: "map_of (headers req) ''authorization'' = Some bearerHeader"
      "startsWith bearerHeader ''Bearer ''" and s: "jwtSecret = None \<or> jwtSecret = Some []"
    by blast
  from authenticate_no_secret[OF assms(2) h s assms(4)]
  show \<open>handleRequest env jwtSecret cs req w
          = (Inr (), answered 500 ''{"error":"Internal Server Error"}'' w)\<close>
    by (rule handleRequest_rejected[OF assms(1,3)])
next
  assume "\<exists>bearerHeader secret. map_of (headers req) ''authorization'' = Some bearerHeader
              \<and> startsWith bearerHeader ''Bearer ''
              \<and> jwtSecret = Some secret \<and> secret \<noteq> []
              \<and> (case bearerToken bearerHeader of
                    None \<Rightarrow> True
                  | Some token \<Rightarrow> verify env token secret True = None)"
  then obtain bearerHeader secret where h: "map_of (headers req) ''authorization'' = Some bearerHeader"
      "startsWith bearerHeader ''Bearer ''" "jwtSecret = Some secret" "secret \<noteq> []"
      "case bearerToken bearerHeader of None \<Rightarrow> True | Some token \<Rightarrow> verify env token secret True = None"
    by blast
  from authenticate_bad_token[OF assms(2) h assms(4)]
  show \<open>handleRequest env jwtSecret cs req w = (Inr (), answered 401 ''{"error":"Unauthorized"}'' w)\<close>
    by (rule handleRequest_rejected[OF assms(1,3)])
qed

text \<open>
  \<^verbatim>\<open>GET /api/account\<close> has an auth parameter and is cached, and its key is in the store:
  without header the answer is 401, with a bearer token and no secret 500, with a token
  that does not verify 401, and each time there is no event and the store is as before.
\<close>

theorem auth_failures_witness:
  \<open>handleRequest exEnv (Some ''s3cret'') exControllers (getRequest ''/api/account'' [])
      (freshWorld [(''/api/account:{}'', ''{"balance":1}'')])
    = (Inr (), \<lparr>statusCode = 401,
                resHeaders = [(''Content-Type'', ''application/json'')],
                writes = [(401, [(''Content-Type'', ''application/json'')], ''{"error":"Unauthorized"}'')],
                store = [(''/api/account:{}'', ''{"balance":1}'')], events = []\<rparr>)
   \<and> handleRequest exEnv None exControllers
      (getRequest ''/api/account'' [(''authorization'', ''Bearer valid'')])
      (freshWorld [(''/api/account:{}'', ''{"balance":1}'')])
    = (Inr (), \<lparr>statusCode = 500,
                resHeaders = [(''Content-Type'', ''application/json'')],
                writes = [(500, [(''Content-Type'', ''application/json'')],
                           ''{"error":"Internal Server Error"}'')],
                store = [(''/api/account:{}'', ''{"balance":1}'')], events = []\<rparr>)
   \<and> handleRequest exEnv (Some ''s3cret'') exControllers
      (getRequest ''/api/account'' [(''authorization'', ''Bearer forged'')])
      (freshWorld [(''/api/account:{}'', ''{"balance":1}'')])
    = (Inr (), \<lparr>statusCode = 401,
                resHeaders = [(''Content-Type'', ''application/json'')],
                writes = [(401, [(''Content-Type'', ''application/json'')], ''{"error":"Unauthorized"}'')],
                store = [(''/api/account:{}'', ''{"balance":1}'')], events = []\<rparr>)\<close>
proof -
  let ?w = \<open>freshWorld [(''/api/account:{}'', ''{"balance":1}'')]\<close>
  let ?r1 = "getRequest ''/api/account'' []"
  let ?r2 = "getRequest ''/api/account'' [(''authorization'', ''Bearer valid'')]"
  let ?r3 = "getRequest ''/api/account'' [(''authorization'', ''Bearer forged'')]"
  have a: "map_of (auth ctrlApi) (methodName routeAccount) = Some [(0, ''__allAuthParams'')]"
    by code_simp
  have w: "writes ?w = []" by code_simp
  have f1: "firstMatch ?r1 exControllers = Some (ctrlApi, routeAccount)" by code_simp
  have f2: "firstMatch ?r2 exControllers = Some (ctrlApi, routeAccount)" by code_simp
  have f3: "firstMatch ?r3 exControllers = Some (ctrlApi, routeAccount)" by code_simp
  have e1: "extractParams exEnv ?r1 (fullPathOf ctrlApi routeAccount) ?w
      = (Inr [(''body'', JObj []), (''params'', JObj []), (''headers'', headersObj ?r1), (''query'', JObj [])], ?w)"
    by code_simp
  have e2: "extractParams exEnv ?r2 (fullPathOf ctrlApi routeAccount) ?w
      = (Inr [(''body'', JObj []), (''params'', JObj []), (''headers'', headersObj ?r2), (''query'', JObj [])], ?w)"
    by code_simp
  have e3: "extractParams exEnv ?r3 (fullPathOf ctrlApi routeAccount) ?w
      = (Inr [(''body'', JObj []), (''params'', JObj []), (''headers'', headersObj ?r3), (''query'', JObj [])], ?w)"
    by code_simp
  have c1: "case map_of (headers ?r1) ''authorization'' of
              None \<Rightarrow> True | Some bearerHeader \<Rightarrow> \<not> startsWith bearerHeader ''Bearer ''"
    by code_simp
  have c2: "(\<exists>bearerHeader. map_of (headers ?r2) ''authorization'' = Some bearerHeader
              \<and> startsWith bearerHeader ''Bearer '')
           \<and> ((None :: string option) = None \<or> (None :: string option) = Some [])"
    by (simp add: getRequest_def startsWith_def)
  have c3: "\<exists>bearerHeader secret. map_of (headers ?r3) ''authorization'' = Some bearerHeader
              \<and> startsWith bearerHeader ''Bearer ''
              \<and> Some ''s3cret'' = Some secret \<and> secret \<noteq> []
              \<and> (case bearerToken bearerHeader of
                    None \<Rightarrow> True
                  | Some token \<Rightarrow> verify exEnv token secret True = None)"
    by (simp add: getRequest_def startsWith_def bearerToken_def exEnv_def exVerify_def)
  note t1 = auth_failures[OF f1 a e1 w, of "Some ''s3cret''", THEN conjunct1, rule_format, OF c1]
  note t2 = auth_failures[OF f2 a e2 w, of None, THEN conjunct2, THEN conjunct1, rule_format, OF c2]
  note t3 = auth_failures[OF f3 a e3 w, of "Some ''s3cret''", THEN conjunct2, THEN conjunct2, rule_format, OF c3]
  have v1: \<open>answered 401 ''{"error":"Unauthorized"}'' ?w
      = \<lparr>statusCode = 401,
         resHeaders = [(''Content-Type'', ''application/json'')],
         writes = [(401, [(''Content-Type'', ''application/json'')], ''{"error":"Unauthorized"}'')],
         store = [(''/api/account:{}'', ''{"balance":1}'')], events = []\<rparr>\<close>
    by code_simp
  have v2: \<open>answered 500 ''{"error":"Internal Server Error"}'' ?w
      = \<lparr>statusCode = 500,
         resHeaders = [(''Content-Type'', ''application/json'')],
         writes = [(500, [(''Content-Type'', ''application/json'')], ''{"error":"Internal Server Error"}'')],
         store = [(''/api/account:{}'', ''{"balance":1}'')], events = []\<rparr>\<close>
    by code_simp
  show ?thesis
    unfolding t1 t2 t3 v1 v2 by simp
qed

section \<open>Cache hits\<close>




section \<open>Expired tokens\<close>



section \<open>One response for every request\<close>

text \<open>
  Claim C8. For every inbound request, whatever the routes, the secret and the behaviour
  of the parser, the verifier, the handlers and the cache store, \<^verbatim>\<open>handleRequest\<close> on a
  response object that has not been used returns normally (no exception leaves it) and
  has called \<^verbatim>\<open>res.end\<close> exactly once, so one status code and one body are sent, as JSON.
  The status is 200, 401, 404 or 500, and on the three failure statuses the body is
  \<^verbatim>\<open>{"error":"Unauthorized"}\<close>, \<^verbatim>\<open>{"error":"Not found"}\<close> and
  \<^verbatim>\<open>{"error":"Internal Server Error"}\<close> respectively.
\<close>

theorem exactly_one_response:
  assumes "writes w = []" and "statusCode w = 200"
  shows \<open>\<exists>w' st hs b.
           handleRequest env jwtSecret cs req w = (Inr (), w')
         \<and> writes w' = [(st, hs, b)] \<and> statusCode w' = st
         \<and> map_of hs ''Content-Type'' = Some ''application/json''
         \<and> (st = 200
             \<or> st = 401 \<and> b = ''{"error":"Unauthorized"}''
             \<or> st = 404 \<and> b = ''{"error":"Not found"}''
             \<or> st = 500 \<and> b = ''{"error":"Internal Server Error"}'')\<close>
proof (cases "pathname req")
  case None
  then have "handleRequest env jwtSecret cs req = internalServerError"
    by (simp add: handleRequest_def ioCatch_throw)
  then show ?thesis
    using assms by (simp add: internalServerError_fresh map_of_upsert)
next
  case (Some url)
  show ?thesis
  proof (cases "firstMatch req cs")
    case None
    have "handleRequest env jwtSecret cs req w = notFound w"
      using assms(1) by (simp add: handleRequest_no_route[OF None Some] ioCatch_def notFound_fresh)
    then show ?thesis
      using assms by (simp add: notFound_fresh map_of_upsert)
  next
    case (Some cr)
    obtain c r where cr: "cr = (c, r)" by (cases cr)
    from Some cr have fm: "firstMatch req cs = Some (c, r)" by simp
    from firstMatch_props[OF fm] \<open>pathname req = Some url\<close> obtain ps where
      ps: "matchRoute (fullPathOf c r) url = Some ps" by auto
    obtain res ws where s: "serve env jwtSecret req (splitOn (CHR ''/'') url) c r w = (res, ws)"
      by (cases "serve env jwtSecret req (splitOn (CHR ''/'') url) c r w")
    note so = serve_outcome[OF \<open>pathname req = Some url\<close> ps assms(1) s, THEN conjunct2]
    note hd = handleRequest_dispatch[OF fm \<open>pathname req = Some url\<close>, of env jwtSecret]
    show ?thesis
    proof (cases res)
      case (Inl e)
      with so have ws: "writes ws = []" by simp
      have "handleRequest env jwtSecret cs req w = internalServerError ws"
        unfolding hd using s Inl by (simp add: ioCatch_def ioBind_def)
      then show ?thesis
        by (simp add: internalServerError_fresh[OF ws] map_of_upsert)
    next
      case (Inr returned)
      have "handleRequest env jwtSecret cs req w = (Inr (), ws)"
        unfolding hd using s Inr by (simp add: ioCatch_def ioBind_def ioReturn_def)
      then show ?thesis using so Inr assms(2) by auto
    qed
  qed
qed

text \<open>A request for a path that no route has: the one response is the 404.\<close>

theorem exactly_one_response_witness:
  \<open>(\<exists>w' st hs b.
        handleRequest exEnv None exControllers (getRequest ''/nowhere'' []) (freshWorld []) = (Inr (), w')
      \<and> writes w' = [(st, hs, b)] \<and> statusCode w' = st
      \<and> map_of hs ''Content-Type'' = Some ''application/json''
      \<and> (st = 200
          \<or> st = 401 \<and> b = ''{"error":"Unauthorized"}''
          \<or> st = 404 \<and> b = ''{"error":"Not found"}''
          \<or> st = 500 \<and> b = ''{"error":"Internal Server Error"}''))
   \<and> writes (snd (handleRequest exEnv None exControllers (getRequest ''/nowhere'' []) (freshWorld [])))
       = [(404, [(''Content-Type'', ''application/json'')], ''{"error":"Not found"}'')]\<close>
proof -
  let ?w = "freshWorld ([] :: (string \<times> string) list)"
  have 1: "writes ?w = []" by (simp add: freshWorld_def)
  have 2: "statusCode ?w = 200" by (simp add: freshWorld_def)
  have 3: \<open>writes (snd (handleRequest exEnv None exControllers (getRequest ''/nowhere'' []) ?w))
       = [(404, [(''Content-Type'', ''application/json'')], ''{"error":"Not found"}'')]\<close>
    by code_simp
  show ?thesis
    using exactly_one_response[OF 1 2, of exEnv None exControllers "getRequest ''/nowhere'' []"] 3
    by blast
qed

section \<open>One cache entry for all callers of a path\<close>

text \<open>
  Claim C9 says that two requests to the same path that differ only in headers (the bearer
  token included) or in body have the same cache key, so that within the TTL window the
  second is served the cached response produced by the first, regardless of those inputs.
  The keys are indeed equal, but the conclusion fails as stated: the differing inputs
  decide whether the second request reaches the cache at all. \<^verbatim>\<open>GET /api/account\<close> is
  cached and has an auth parameter; after a first request with a valid token has filled
  the cache, a second one that differs only in its token, which does not verify, is
  answered 401.
\<close>

theorem cached_response_shared_counterexample:
  \<open>handleRequest exEnv (Some ''s3cret'') exControllers
       (getRequest ''/api/account'' [(''authorization'', ''Bearer valid'')]) (freshWorld [])
     = (Inr (),
        \<lparr>statusCode = 200,
         resHeaders = [(''Content-Type'', ''application/json'')],
         writes = [(200, [(''Content-Type'', ''application/json'')], ''{"owner":"alice"}'')],
         store = [(''/api/account:{}'', ''{"owner":"alice"}'')],
         events =
           [CacheGet ''/api/account:{}'',
            Invoked ''ApiController'' ''account''
              [JObj [(''sub'', JStr ''alice''), (''exp'', JNum 4102444800)],
               JObj [], JObj [], JObj [(''authorization'', JStr ''Bearer valid'')], JObj []],
            CacheSet ''/api/account:{}'' (Some ''{"owner":"alice"}'') (Some (Rendered ''30''))]\<rparr>)
   \<and> handleRequest exEnv (Some ''s3cret'') exControllers
       (getRequest ''/api/account'' [(''authorization'', ''Bearer forged'')])
       (freshWorld [(''/api/account:{}'', ''{"owner":"alice"}'')])
     = (Inr (),
        \<lparr>statusCode = 401,
         resHeaders = [(''Content-Type'', ''application/json'')],
         writes = [(401, [(''Content-Type'', ''application/json'')], ''{"error":"Unauthorized"}'')],
         store = [(''/api/account:{}'', ''{"owner":"alice"}'')],
         events = []\<rparr>)\<close>
  by code_simp

text \<open>
  Claim C9, amended. For every cacheable route the cache key is made from the full path of
  the route and the path parameters only: two requests with the same method and path,
  whatever their headers and bodies, have the same key once they reach the cache lookup.
  So, when both pass parameter extraction and the JWT logic, the first finds nothing (or
  an empty string) under the key, its handler returns a result whose serialisation is a
  non-empty string, the write succeeds and the store returns that string afterwards (the
  TTL window), then the first response carries that string and the second request, on a
  new response object before the store the first one left, is answered with the same
  string byte for byte, marked \<^verbatim>\<open>X-Cache: HIT\<close>, without any invocation of the handler.
\<close>

theorem cached_response_shared:
  assumes "firstMatch req1 cs = Some (c, r)"
    and "pathname req2 = pathname req1" and "reqMethod req2 = reqMethod req1"
    and "methodName r \<in> set (cachedMethods c)"
    and "extractParams env req1 (fullPathOf c r) w1 = (Inr p1, w1)"
    and "authenticate env jwtSecret c r req1 p1 w1 = (Inr (Some q1), w1)"
    and "redisGet env (store w1) (cacheKeyOf env (fullPathOf c r) q1) = Inr cachedResult"
    and "cachedResult = None \<or> cachedResult = Some []"
    and "handler env (ctrlName c) (methodName r) (objectValues q1) = Inr result"
    and "jsonStringify env result = Some v" and "v \<noteq> []"
    and "redisSet env (store w1) (cacheKeyOf env (fullPathOf c r) q1) (Some v)
           (map_of (cacheTtl c) (methodName r)) = Inr s'"
    and "redisGet env s' (cacheKeyOf env (fullPathOf c r) q1) = Inr (Some v)"
    and "writes w1 = []"
    and "extractParams env req2 (fullPathOf c r) w2 = (Inr p2, w2)"
    and "authenticate env jwtSecret c r req2 p2 w2 = (Inr (Some q2), w2)"
    and "writes w2 = []"
    and "store w2 = store (snd (handleRequest env jwtSecret cs req1 w1))"
  shows "cacheKeyOf env (fullPathOf c r) q2 = cacheKeyOf env (fullPathOf c r) q1
       \<and> (\<exists>hs1. writes (snd (handleRequest env jwtSecret cs req1 w1)) = [(statusCode w1, hs1, v)])
       \<and> (\<exists>hs2. handleRequest env jwtSecret cs req2 w2
                   = (Inr (), w2\<lparr>resHeaders := hs2,
                                 writes := [(statusCode w2, hs2, v)],
                                 events := events w2 @ [CacheGet (cacheKeyOf env (fullPathOf c r) q1)]\<rparr>)
                \<and> map_of hs2 ''X-Cache'' = Some ''HIT'')"
proof -
  from firstMatch_props[OF assms(1)] obtain url where url1: "pathname req1 = Some url" by blast
  then have url2: "pathname req2 = Some url" using assms(2) by simp
  have fm2: "firstMatch req2 cs = Some (c, r)"
    using firstMatch_same_path[OF assms(2,3)] assms(1) by simp
  have key: "cacheKeyOf env (fullPathOf c r) q2 = cacheKeyOf env (fullPathOf c r) q1"
    by (simp add: cacheKey_of_path[OF url1 assms(5,6)] cacheKey_of_path[OF url2 assms(15,16)])
  have r1: "handleRequest env jwtSecret cs req1 w1 =
     (Inr (), w1\<lparr>resHeaders := upsert ''Content-Type'' ''application/json'' (resHeaders w1),
                 writes := [(statusCode w1, upsert ''Content-Type'' ''application/json'' (resHeaders w1), v)],
                 store := s',
                 events := events w1 @
                   [CacheGet (cacheKeyOf env (fullPathOf c r) q1),
                    Invoked (ctrlName c) (methodName r) (objectValues q1),
                    CacheSet (cacheKeyOf env (fullPathOf c r) q1) (Some v)
                      (map_of (cacheTtl c) (methodName r))]\<rparr>)"
    unfolding handleRequest_admitted[OF assms(1,5,6)]
    using respond_miss[OF assms(4,7,8,9) _ assms(14), of s'] assms(10,12)
    by (simp add: ioCatch_def endArg_def)
  then have s2: "store w2 = s'" using assms(18) by simp
  have g2: "redisGet env (store w2) (cacheKeyOf env (fullPathOf c r) q2) = Inr (Some v)"
    using assms(13) by (simp add: s2 key)
  have r2: "handleRequest env jwtSecret cs req2 w2 =
     (Inr (), w2\<lparr>resHeaders :=
                  upsert ''Content-Type'' ''application/json''
                    (upsert ''Cache-Control''
                       (''public, max-age='' @ templateNum (map_of (cacheTtl c) (methodName r)))
                       (upsert ''X-Cache'' ''HIT'' (resHeaders w2))),
                writes :=
                  [(statusCode w2,
                    upsert ''Content-Type'' ''application/json''
                      (upsert ''Cache-Control''
                         (''public, max-age='' @ templateNum (map_of (cacheTtl c) (methodName r)))
                         (upsert ''X-Cache'' ''HIT'' (resHeaders w2))),
                    v)],
                events := events w2 @ [CacheGet (cacheKeyOf env (fullPathOf c r) q1)]\<rparr>)"
    unfolding handleRequest_admitted[OF fm2 assms(15,16)]
    by (simp add: ioCatch_def respond_hit[OF assms(4) g2 assms(11,17)] key)
  have x: "map_of (upsert ''Content-Type'' ''application/json''
                    (upsert ''Cache-Control''
                       (''public, max-age='' @ templateNum (map_of (cacheTtl c) (methodName r)))
                       (upsert ''X-Cache'' ''HIT'' (resHeaders w2)))) ''X-Cache'' = Some ''HIT''"
    by (simp add: map_of_upsert)
  show ?thesis
    using key r1 r2 x by auto
qed

text \<open>
  \<^verbatim>\<open>GET /api/account\<close> answers with the owner named by the token. After the request of
  \<^verbatim>\<open>alice\<close>, the request of \<^verbatim>\<open>bob\<close>, which differs in the \<^verbatim>\<open>Authorization\<close> header only, is
  served the response computed for \<^verbatim>\<open>alice\<close>.
\<close>

theorem cached_response_shared_witness:
  \<open>(\<exists>hs1. writes (snd (handleRequest exEnv (Some ''s3cret'') exControllers
                        (getRequest ''/api/account'' [(''authorization'', ''Bearer valid'')])
                        (freshWorld [])))
             = [(200, hs1, ''{"owner":"alice"}'')])
   \<and> (\<exists>hs2. handleRequest exEnv (Some ''s3cret'') exControllers
               (getRequest ''/api/account'' [(''authorization'', ''Bearer expired'')])
               (freshWorld [(''/api/account:{}'', ''{"owner":"alice"}'')])
             = (Inr (), (freshWorld [(''/api/account:{}'', ''{"owner":"alice"}'')])
                          \<lparr>resHeaders := hs2,
                           writes := [(200, hs2, ''{"owner":"alice"}'')],
                           events := [CacheGet ''/api/account:{}'']\<rparr>)
           \<and> map_of hs2 ''X-Cache'' = Some ''HIT'')\<close>
proof -
  let ?req1 = "getRequest ''/api/account'' [(''authorization'', ''Bearer valid'')]"
  let ?req2 = "getRequest ''/api/account'' [(''authorization'', ''Bearer expired'')]"
  let ?w1 = "freshWorld ([] :: (string \<times> string) list)"
  let ?w2 = \<open>freshWorld [(''/api/account:{}'', ''{"owner":"alice"}'')]\<close>
  let ?p1 = "[(''body'', JObj []), (''params'', JObj []),
              (''headers'', JObj [(''authorization'', JStr ''Bearer valid'')]), (''query'', JObj [])]"
  let ?p2 = "[(''body'', JObj []), (''params'', JObj []),
              (''headers'', JObj [(''authorization'', JStr ''Bearer expired'')]), (''query'', JObj [])]"
  let ?q1 = "(''0'', JObj [(''sub'', JStr ''alice''), (''exp'', JNum 4102444800)]) # ?p1"
  let ?q2 = "(''0'', JObj [(''sub'', JStr ''bob''), (''exp'', JNum 1)]) # ?p2"
  let ?S = "Some ''s3cret''"
  have 1: "firstMatch ?req1 exControllers = Some (ctrlApi, routeAccount)" by code_simp
  have 2: "pathname ?req2 = pathname ?req1" by code_simp
  have 3: "reqMethod ?req2 = reqMethod ?req1" by code_simp
  have 4: "methodName routeAccount \<in> set (cachedMethods ctrlApi)" by code_simp
  have 5: "extractParams exEnv ?req1 (fullPathOf ctrlApi routeAccount) ?w1 = (Inr ?p1, ?w1)"
    by code_simp
  have 6: "authenticate exEnv ?S ctrlApi routeAccount ?req1 ?p1 ?w1 = (Inr (Some ?q1), ?w1)"
    by code_simp
  have 7: "redisGet exEnv (store ?w1) (cacheKeyOf exEnv (fullPathOf ctrlApi routeAccount) ?q1) = Inr None"
    by code_simp
  have 8: "(None :: string option) = None \<or> (None :: string option) = Some []" by simp
  have 9: "handler exEnv (ctrlName ctrlApi) (methodName routeAccount) (objectValues ?q1)
             = Inr (JObj [(''owner'', JStr ''alice'')])" by code_simp
  have 10: \<open>jsonStringify exEnv (JObj [(''owner'', JStr ''alice'')]) = Some ''{"owner":"alice"}''\<close>
    by code_simp
  have 11: \<open>''{"owner":"alice"}'' \<noteq> []\<close> by simp
  have 12: \<open>redisSet exEnv (store ?w1) (cacheKeyOf exEnv (fullPathOf ctrlApi routeAccount) ?q1)
              (Some ''{"owner":"alice"}'') (map_of (cacheTtl ctrlApi) (methodName routeAccount))
             = Inr [(''/api/account:{}'', ''{"owner":"alice"}'')]\<close> by code_simp
  have 13: \<open>redisGet exEnv [(''/api/account:{}'', ''{"owner":"alice"}'')]
              (cacheKeyOf exEnv (fullPathOf ctrlApi routeAccount) ?q1)
             = Inr (Some ''{"owner":"alice"}'')\<close> by code_simp
  have 14: "writes ?w1 = []" by code_simp
  have 15: "extractParams exEnv ?req2 (fullPathOf ctrlApi routeAccount) ?w2 = (Inr ?p2, ?w2)"
    by code_simp
  have 16: "authenticate exEnv ?S ctrlApi routeAccount ?req2 ?p2 ?w2 = (Inr (Some ?q2), ?w2)"
    by code_simp
  have 17: "writes ?w2 = []" by code_simp
  have 18: "store ?w2 = store (snd (handleRequest exEnv ?S exControllers ?req1 ?w1))"
    by code_simp
  note t = cached_response_shared[OF 1 2 3 4 5 6 7 8 9 10 11 12 13 14 15 16 17 18]
  have k: "cacheKeyOf exEnv (fullPathOf ctrlApi routeAccount) ?q1 = ''/api/account:{}''"
    by code_simp
  have s1: "statusCode ?w1 = 200" by code_simp
  have s2: "statusCode ?w2 = 200" and e2: "events ?w2 = []" by code_simp+
  show ?thesis
    using t[THEN conjunct2] unfolding k s1 s2 e2 by simp
qed

section \<open>A body that is not JSON\<close>

text \<open>
  Claim C10. For every request that is not a GET, whose \<^verbatim>\<open>Content-Type\<close> header is exactly
  \<^verbatim>\<open>application/json\<close> and whose body is not valid JSON, dispatched to a matching route,
  the response is 500 with the body \<^verbatim>\<open>{"error":"Internal Server Error"}\<close>. The parameters
  are extracted (and the body read and parsed) before the authentication check, so this
  500 is the answer also when the route has an auth parameter and the \<^verbatim>\<open>Authorization\<close>
  header is missing or wrong: neither the secret, the route's auth metadata nor the other
  headers appear among the hypotheses. Nothing is read from or written to the cache and
  no handler runs.
\<close>

theorem invalid_json_body_500:
  assumes "firstMatch req cs = Some (c, r)"
    and "map_option toLowerCase (reqMethod req) \<noteq> Some ''get''"
    and "map_of (headers req) ''content-type'' = Some ''application/json''"
    and "body req = StreamEnd chunks"
    and "jsonParse env (concat chunks) = None"
    and "writes w = []"
  shows \<open>handleRequest env jwtSecret cs req w =
     (Inr (), w\<lparr>statusCode := 500,
                resHeaders := upsert ''Content-Type'' ''application/json'' (resHeaders w),
                writes := [(500, upsert ''Content-Type'' ''application/json'' (resHeaders w),
                            ''{"error":"Internal Server Error"}'')]\<rparr>)\<close>
proof -
  from firstMatch_props[OF assms(1)] obtain url ps where
    url: "pathname req = Some url" and ps: "matchRoute (fullPathOf c r) url = Some ps"
    by blast
  have "getJsonBody env req = ioThrow SyntaxError"
    by (simp add: getJsonBody_def assms(4,5))
  then have "serve env jwtSecret req (splitOn (CHR ''/'') url) c r = ioThrow SyntaxError"
    by (simp only: serve_matched[OF url ps] if_P[OF conjI[OF assms(2,3)]] ioBind_throw_left)
  then have "handleRequest env jwtSecret cs req = internalServerError"
    by (simp add: handleRequest_dispatch[OF assms(1) url] ioBind_throw_left ioCatch_throw)
  then show ?thesis by (simp add: internalServerError_fresh[OF assms(6)])
qed

text \<open>
  \<^verbatim>\<open>POST /api/orders\<close> has an auth parameter; the request has a truncated JSON body and no
  \<^verbatim>\<open>Authorization\<close> header, and is answered with 500, not 401.
\<close>

theorem invalid_json_body_500_witness:
  \<open>handleRequest exEnv (Some ''s3cret'') exControllers
      (postRequest ''/api/orders'' [(''content-type'', ''application/json'')] [''{"qty"'', '':''])
      (freshWorld [])
    = (Inr (), \<lparr>statusCode = 500,
                resHeaders = [(''Content-Type'', ''application/json'')],
                writes = [(500, [(''Content-Type'', ''application/json'')],
                           ''{"error":"Internal Server Error"}'')],
                store = [], events = []\<rparr>)\<close>
proof -
  let ?req = \<open>postRequest ''/api/orders'' [(''content-type'', ''application/json'')] [''{"qty"'', '':'']\<close>
  have 1: "firstMatch ?req exControllers = Some (ctrlApi, routeOrders)" by code_simp
  have 2: "map_option toLowerCase (reqMethod ?req) \<noteq> Some ''get''" by code_simp
  have 3: "map_of (headers ?req) ''content-type'' = Some ''application/json''" by code_simp
  have 4: \<open>body ?req = StreamEnd [''{"qty"'', '':'']\<close> by code_simp
  have 5: \<open>jsonParse exEnv (concat [''{"qty"'', '':'']) = None\<close> by code_simp
  have 6: "writes (freshWorld ([] :: (string \<times> string) list)) = []" by code_simp
  show ?thesis
    using invalid_json_body_500[OF 1 2 3 4 5 6, of "Some ''s3cret''"]
    by (simp add: freshWorld_def)
qed

end
